theory Spec2Isabelle
  imports Complex_Main "HOL-Library.Sublist" "HOL-Library.Multiset"
begin

section \<open>Errors and outcomes\<close>

text \<open>
  The Python exceptions the three scripts can raise in the code modelled here.
  A run of a master either returns, raises, or is still polling its workers when the
  polling passes granted to it are used up (it would go on sleeping and polling).
\<close>

datatype error = IndexError | KeyError | ZeroDivisionError | TypeError | ValueError

datatype 'st outcome = Returned 'st | Raised error 'st | Waiting 'st

fun state_of :: "'st outcome \<Rightarrow> 'st" where
  "state_of (Returned st) = st"
| "state_of (Raised e st) = st"
| "state_of (Waiting st) = st"

fun returned :: "'st outcome \<Rightarrow> bool" where
  "returned (Returned st) = True"
| "returned (Raised e st) = False"
| "returned (Waiting st) = False"

section \<open>Reading the manifest\<close>









section \<open>Entry points\<close>

text \<open>
  The \<open>__main__\<close> blocks. \<open>sys.exit()\<close> without an argument raises
  \<open>SystemExit(None)\<close>, and the interpreter then ends with exit status 0.
  \<open>Exited\<close> carries what was printed and the exit status; otherwise the process
  goes on as master (rank 0) or as slave.
\<close>

datatype role = Exited "string list" int | Master | Slave

fun exit_status :: "role \<Rightarrow> int option" where
  "exit_status (Exited printed status) = Some status"
| "exit_status Master = None"
| "exit_status Slave = None"

definition sys_exit :: "string list \<Rightarrow> role" where
  "sys_exit printed = Exited printed 0"

definition main_hit_finder :: "nat \<Rightarrow> nat \<Rightarrow> role" where
  "main_hit_finder comm_size rank =
     (if comm_size = 1 then sys_exit [''Run batch hit finder with at least 2 processes!'']
      else if rank = 0 then Master else Slave)"

definition main_peak2cxi :: "nat \<Rightarrow> nat \<Rightarrow> role" where
  "main_peak2cxi comm_size rank =
     (if comm_size = 1 then sys_exit [''Run batch peak2cxi with at least 2 processes!'']
      else if rank = 0 then Master else Slave)"

definition main_peak_powder :: "nat \<Rightarrow> nat \<Rightarrow> role" where
  "main_peak_powder comm_size rank =
     (if comm_size = 1 then sys_exit [''Run batch hit finder with at least 2 processes!'']
      else if rank = 0 then Master else Slave)"

section \<open>Units, jobs and what a slave sends back\<close>

text \<open>
  A unit of work of the hit finder is a dictionary with the keys \<open>filepath\<close> and
  \<open>frame\<close>; a slave adds the key \<open>nb_peak\<close> (batch\_hit\_finder.py, lines 168-186).
  The peak finder is not part of the repository's sources: \<open>find_peaks\<close> stands for
  \<open>read_image\<close> followed by \<open>find_peaks(...)['strong']\<close>, which is \<open>None\<close> or the
  list of strong peaks of that frame.
\<close>

record frame_unit =
  filepath :: string
  frame :: nat

record hit = frame_unit +
  nb_peak :: int

definition annotate :: "(string \<Rightarrow> nat \<Rightarrow> 'p list option) \<Rightarrow> frame_unit \<Rightarrow> hit" where
  "annotate find_peaks u =
     (case find_peaks (filepath u) (frame u) of
        Some strong \<Rightarrow> \<lparr>filepath = filepath u, frame = frame u, nb_peak = int (length strong)\<rparr>
      | None \<Rightarrow> \<lparr>filepath = filepath u, frame = frame u, nb_peak = 0\<rparr>)"

definition slave_job_hit ::
  "(string \<Rightarrow> nat \<Rightarrow> 'p list option) \<Rightarrow> frame_unit list \<Rightarrow> hit list" where
  "slave_job_hit find_peaks job = map (annotate find_peaks) job"

section \<open>The master's state\<close>

text \<open>
  Slaves are the ranks \<open>1 .. size - 1\<close>. The trace records what the master does on the
  communicator and on its files, in order: the jobs and flags it sends, the receives it
  arms, the results it takes from a completed receive, and the files it writes.
\<close>

type_synonym slave = nat

datatype ('j, 'e, 's) event =
    Isend_job slave 'j
  | Isend_flag slave bool
  | Irecv slave
  | Recv slave "'e list"
  | Write_stat 's
  | Write_csv "'e list"

text \<open>
  A request armed by \<open>comm.irecv\<close> waits for the answer to the job last sent to that
  slave. \<open>test()\<close> returns \<open>(False, None)\<close> while the answer has not arrived and
  \<open>(True, answer)\<close> once it has; the request is then complete, and \<open>test()\<close> on a
  complete request returns \<open>(True, None)\<close> (mpi4py).
\<close>

datatype 'j request = Pending 'j | Completed

definition test ::
  "('j \<Rightarrow> 'e list) \<Rightarrow> bool \<Rightarrow> 'j request \<Rightarrow> (bool \<times> 'e list option) \<times> 'j request" where
  "test work answered rq =
     (case rq of
        Pending job \<Rightarrow>
          if answered then ((True, Some (work job)), Completed)
          else ((False, None), Pending job)
      | Completed \<Rightarrow> ((True, None), Completed))"

text \<open>
  The inputs of one run of a master: the jobs, the number of processes, what a slave
  answers to a job, which slaves have answered by which polling pass, the options and
  the two readings of the clock.
\<close>

record ('j, 'e) run =
  jobs :: "'j list"
  comm_size :: nat
  work :: "'j \<Rightarrow> 'e list"
  answered :: "nat \<Rightarrow> slave \<Rightarrow> bool"
  min_peak :: int
  update_freq :: int
  time_start :: rat
  time_end :: rat

text \<open>
  The variables of \<open>master_run\<close> (\<open>results\<close> is \<open>peaks\<close> in the powder master;
  \<open>finished_slaves\<close> exists in the powder and peak2cxi masters only, where
  \<open>slaves\<close> is a set, walked in ascending order as CPython does for small integers),
  the file of statistics (each write replaces it), the trace, and the number of polling
  passes made so far.
\<close>

record ('j, 'e, 's) master =
  job_id :: nat
  reqs :: "slave \<rightharpoonup> 'j request"
  results :: "'e list"
  slaves :: "slave list"
  finished_slaves :: "slave set"
  stop :: bool
  all_done :: bool
  stat_file :: "'s option"
  trace :: "('j, 'e, 's) event list"
  polls :: nat

definition init_master :: "nat \<Rightarrow> ('j, 'e, 's) master" where
  "init_master n =
     \<lparr>job_id = 0, reqs = Map.empty, results = [], slaves = [1..<n],
      finished_slaves = {}, stop = False,
      all_done = False, stat_file = None, trace = [], polls = 0\<rparr>"

section \<open>The hit-finder master (batch\_hit\_finder.py)\<close>

text \<open>
  The dictionary written to \<open>stat.yml\<close>. The two percentages are kept as the numbers
  that \<open>'%.2f%%'\<close> formats; the arithmetic is exact here.
\<close>

datatype progress_value = Percent rat | Done

datatype duration_value = Not_finished | Seconds rat

record stat =
  stat_progress :: progress_value
  stat_processed_hits :: nat
  stat_hit_rate :: rat
  stat_duration :: duration_value
  stat_processed_frames :: nat
  stat_total_jobs :: nat
  stat_time_start :: rat

type_synonym hit_master = "(frame_unit list, hit, stat) master"

type_synonym hit_run = "(frame_unit list, hit) run"

text \<open>Lines 61-66: one job to every slave, with no test of \<open>job_id\<close>.\<close>

fun saturate_hit :: "hit_run \<Rightarrow> slave list \<Rightarrow> hit_master \<Rightarrow> hit_master outcome" where
  "saturate_hit r [] st = Returned st"
| "saturate_hit r (slave # rest) st =
     (if job_id st < length (jobs r) then
        saturate_hit r rest
          (st\<lparr>trace := trace st @ [Isend_job slave (jobs r ! job_id st), Irecv slave],
              reqs := (reqs st)(slave \<mapsto> Pending (jobs r ! job_id st)),
              job_id := job_id st + 1\<rparr>)
      else Raised IndexError st)"

text \<open>
  Lines 70-84: one polling pass of the first loop. \<open>results += result\<close> raises
  TypeError when \<open>result\<close> is \<open>None\<close>.
\<close>

fun steady_pass_hit :: "hit_run \<Rightarrow> slave list \<Rightarrow> hit_master \<Rightarrow> hit_master outcome" where
  "steady_pass_hit r [] st = Returned st"
| "steady_pass_hit r (slave # rest) st =
     (case reqs st slave of
        None \<Rightarrow> Raised KeyError st
      | Some rq \<Rightarrow>
          (let ((finished, result), rq') = test (work r) (answered r (polls st) slave) rq in
           if finished then
             (case result of
                None \<Rightarrow> Raised TypeError (st\<lparr>reqs := (reqs st)(slave \<mapsto> rq')\<rparr>)
              | Some res \<Rightarrow>
                  if job_id st < length (jobs r) then
                    steady_pass_hit r rest
                      (st\<lparr>results := results st @ res,
                          trace := trace st @
                            [Recv slave res, Isend_flag slave (stop st),
                             Isend_job slave (jobs r ! job_id st), Irecv slave],
                          reqs := (reqs st)(slave \<mapsto> Pending (jobs r ! job_id st)),
                          job_id := job_id st + 1\<rparr>)
                  else
                    steady_pass_hit r rest
                      (st\<lparr>results := results st @ res,
                          trace := trace st @ [Recv slave res, Isend_flag slave True],
                          reqs := (reqs st)(slave \<mapsto> rq'),
                          stop := True\<rparr>))
           else steady_pass_hit r rest st))"

definition count_hits :: "int \<Rightarrow> hit list \<Rightarrow> nat" where
  "count_hits min_peak' res = length (filter (\<lambda>h. min_peak' \<le> nb_peak h) res)"

text \<open>
  Lines 85-103, after each pass. \<open>job_id % update_freq\<close> raises ZeroDivisionError for
  \<open>update_freq = 0\<close>; \<open>df['nb_peak']\<close> raises KeyError when \<open>results\<close> is empty
  (a DataFrame without columns).
\<close>

definition update_stat_hit :: "hit_run \<Rightarrow> hit_master \<Rightarrow> hit_master outcome" where
  "update_stat_hit r st =
     (if update_freq r = 0 then Raised ZeroDivisionError st
      else if int (job_id st) mod update_freq r = 0 then
        (if length (jobs r) = 0 then Raised ZeroDivisionError st
         else if results st = [] then Raised KeyError st
         else
           (let progress = of_nat (job_id st) / of_nat (length (jobs r)) * 100;
                processed_hits = count_hits (min_peak r) (results st);
                processed_frames = length (results st);
                hit_rate = of_nat processed_hits / of_nat processed_frames * 100;
                stat_dict =
                  \<lparr>stat_progress = Percent progress,
                   stat_processed_hits = processed_hits,
                   stat_hit_rate = hit_rate,
                   stat_duration = Not_finished,
                   stat_processed_frames = processed_frames,
                   stat_total_jobs = length (jobs r),
                   stat_time_start = time_start r\<rparr>
            in Returned (st\<lparr>stat_file := Some stat_dict,
                            trace := trace st @ [Write_stat stat_dict]\<rparr>)))
      else Returned st)"

text \<open>Lines 68-103: the body of the first loop, one pass and the update of the file.\<close>

definition steady_iteration_hit :: "hit_run \<Rightarrow> hit_master \<Rightarrow> hit_master outcome" where
  "steady_iteration_hit r st =
     (case steady_pass_hit r (slaves st) (st\<lparr>stop := False\<rparr>) of
        Returned st' \<Rightarrow> update_stat_hit r (st'\<lparr>polls := polls st' + 1\<rparr>)
      | Raised e st' \<Rightarrow> Raised e st'
      | Waiting st' \<Rightarrow> Waiting st')"

text \<open>
  Line 67: \<open>while job_id < nb_jobs\<close>. The loop is given a number of passes; when they
  are used up and the loop has not ended, the master is still waiting.
\<close>

fun steady_loop_hit :: "hit_run \<Rightarrow> nat \<Rightarrow> hit_master \<Rightarrow> hit_master outcome" where
  "steady_loop_hit r 0 st =
     (if job_id st < length (jobs r) then Waiting st else Returned st)"
| "steady_loop_hit r (Suc fuel) st =
     (if job_id st < length (jobs r) then
        (case steady_iteration_hit r st of
           Returned st' \<Rightarrow> steady_loop_hit r fuel st'
         | Raised e st' \<Rightarrow> Raised e st'
         | Waiting st' \<Rightarrow> Waiting st')
      else Returned st)"

text \<open>
  Lines 108-116: one pass of the second loop. \<open>for slave in slaves\<close> walks the list by
  position while \<open>slaves.remove(slave)\<close> shortens it: the iterator yields
  \<open>slaves[i]\<close> for \<open>i = 0, 1, ...\<close> as long as \<open>i\<close> is less than the current length.
\<close>

function drain_pass_hit :: "hit_run \<Rightarrow> nat \<Rightarrow> hit_master \<Rightarrow> hit_master outcome" where
  "drain_pass_hit r i st =
     (if i < length (slaves st) then
        (case reqs st (slaves st ! i) of
           None \<Rightarrow> Raised KeyError st
         | Some rq \<Rightarrow>
             (let ((finished, result), rq') =
                    test (work r) (answered r (polls st) (slaves st ! i)) rq in
              if finished then
                (case result of
                   None \<Rightarrow> Raised TypeError (st\<lparr>reqs := (reqs st)(slaves st ! i \<mapsto> rq')\<rparr>)
                 | Some res \<Rightarrow>
                     drain_pass_hit r (i + 1)
                       (st\<lparr>results := results st @ res,
                           slaves := remove1 (slaves st ! i) (slaves st),
                           stop := True,
                           trace := trace st @
                             [Recv (slaves st ! i) res, Isend_flag (slaves st ! i) True],
                           reqs := (reqs st)(slaves st ! i \<mapsto> rq')\<rparr>))
              else drain_pass_hit r (i + 1) (st\<lparr>all_done := False\<rparr>)))
      else Returned st)"
  by pat_completeness auto
termination
  by (relation "measure (\<lambda>(r, i, st). length (slaves st) - i)")
     (auto simp: length_remove1)

text \<open>Lines 105-116: \<open>while not all_done\<close>.\<close>

fun drain_loop_hit :: "hit_run \<Rightarrow> nat \<Rightarrow> hit_master \<Rightarrow> hit_master outcome" where
  "drain_loop_hit r 0 st = (if all_done st then Returned st else Waiting st)"
| "drain_loop_hit r (Suc fuel) st =
     (if all_done st then Returned st
      else
        (case drain_pass_hit r 0 (st\<lparr>all_done := True\<rparr>) of
           Returned st' \<Rightarrow> drain_loop_hit r fuel (st'\<lparr>polls := polls st' + 1\<rparr>)
         | Raised e st' \<Rightarrow> Raised e st'
         | Waiting st' \<Rightarrow> Waiting st'))"

text \<open>Lines 117-141: the table of results and the last \<open>stat.yml\<close>.\<close>

definition finalize_hit :: "hit_run \<Rightarrow> hit_master \<Rightarrow> hit_master outcome" where
  "finalize_hit r st =
     (let duration = time_end r - time_start r;
          st1 = st\<lparr>trace := trace st @ [Write_csv (results st)]\<rparr>
      in if results st = [] then Raised KeyError st1
         else
           (let processed_hits = count_hits (min_peak r) (results st);
                processed_frames = length (results st);
                hit_rate = of_nat processed_hits / of_nat processed_frames * 100;
                stat_dict =
                  \<lparr>stat_progress = Done,
                   stat_processed_hits = processed_hits,
                   stat_hit_rate = hit_rate,
                   stat_duration = Seconds duration,
                   stat_processed_frames = processed_frames,
                   stat_total_jobs = length (jobs r),
                   stat_time_start = time_start r\<rparr>
            in Returned (st1\<lparr>stat_file := Some stat_dict,
                             trace := trace st1 @ [Write_stat stat_dict]\<rparr>)))"

text \<open>
  \<open>master_run\<close> of batch\_hit\_finder.py from line 56 on, with \<open>fuel\<close> polling passes
  granted to each of its two loops.
\<close>

definition master_run_hit :: "hit_run \<Rightarrow> nat \<Rightarrow> hit_master outcome" where
  "master_run_hit r fuel =
     (case saturate_hit r [1..<comm_size r] (init_master (comm_size r)) of
        Returned st1 \<Rightarrow>
          (case steady_loop_hit r fuel st1 of
             Returned st2 \<Rightarrow>
               (case drain_loop_hit r fuel (st2\<lparr>all_done := False\<rparr>) of
                  Returned st3 \<Rightarrow> finalize_hit r st3
                | Raised e st3 \<Rightarrow> Raised e st3
                | Waiting st3 \<Rightarrow> Waiting st3)
           | Raised e st2 \<Rightarrow> Raised e st2
           | Waiting st2 \<Rightarrow> Waiting st2)
      | Raised e st1 \<Rightarrow> Raised e st1
      | Waiting st1 \<Rightarrow> Waiting st1)"

section \<open>Counting what is outstanding\<close>

text \<open>
  For a slave and a stretch of the trace: the jobs sent to it, the receives armed for
  it, and the results taken from it. A slave has at most one job outstanding when the
  results never run ahead of the armed receives, these never ahead of the jobs sent,
  and the jobs sent are at most one ahead of the results.
\<close>

fun is_job_to :: "slave \<Rightarrow> ('j, 'e, 's) event \<Rightarrow> bool" where
  "is_job_to s (Isend_job s' j) = (s' = s)"
| "is_job_to s _ = False"

fun is_irecv_from :: "slave \<Rightarrow> ('j, 'e, 's) event \<Rightarrow> bool" where
  "is_irecv_from s (Irecv s') = (s' = s)"
| "is_irecv_from s _ = False"

fun is_result_from :: "slave \<Rightarrow> ('j, 'e, 's) event \<Rightarrow> bool" where
  "is_result_from s (Recv s' res) = (s' = s)"
| "is_result_from s _ = False"

definition sent_jobs :: "slave \<Rightarrow> ('j, 'e, 's) event list \<Rightarrow> nat" where
  "sent_jobs s tr = length (filter (is_job_to s) tr)"

definition armed :: "slave \<Rightarrow> ('j, 'e, 's) event list \<Rightarrow> nat" where
  "armed s tr = length (filter (is_irecv_from s) tr)"

definition received :: "slave \<Rightarrow> ('j, 'e, 's) event list \<Rightarrow> nat" where
  "received s tr = length (filter (is_result_from s) tr)"

definition one_outstanding :: "slave \<Rightarrow> ('j, 'e, 's) event list \<Rightarrow> bool" where
  "one_outstanding s tr \<longleftrightarrow>
     received s tr \<le> armed s tr \<and> armed s tr \<le> sent_jobs s tr \<and> sent_jobs s tr \<le> received s tr + 1"

fun pending :: "'j request option \<Rightarrow> nat" where
  "pending (Some (Pending j)) = 1"
| "pending _ = 0"

definition paired :: "('j, 'e, 's) event list \<Rightarrow> (slave \<rightharpoonup> 'j request) \<Rightarrow> bool" where
  "paired tr rq \<longleftrightarrow>
     (\<forall>p s. prefix p tr \<longrightarrow> one_outstanding s p) \<and>
     (\<forall>s. armed s tr = received s tr + pending (rq s) \<and>
          sent_jobs s tr = received s tr + pending (rq s))"

section \<open>Saturation in the other two masters\<close>

text \<open>
  batch\_peak2cxi.py, lines 65-73. \<open>for slave in slaves\<close> walks the set
  \<open>set(range(1, size))\<close>, which CPython iterates in ascending order. The
  placeholder is assigned to \<open>job\<close>, but line 70 sends \<open>jobs[job_id]\<close>.
\<close>

fun saturate_peak2cxi ::
  "('u list, 'e) run \<Rightarrow> slave list \<Rightarrow> ('u list, 'e, 's) master \<Rightarrow> ('u list, 'e, 's) master outcome" where
  "saturate_peak2cxi r [] st = Returned st"
| "saturate_peak2cxi r (slave # rest) st =
     (let job = (if job_id st < length (jobs r) then jobs r ! job_id st else []) in
      if job_id st < length (jobs r) then
        saturate_peak2cxi r rest
          (st\<lparr>trace := trace st @ [Isend_job slave (jobs r ! job_id st), Irecv slave],
              reqs := (reqs st)(slave \<mapsto> Pending (jobs r ! job_id st)),
              job_id := job_id st + 1\<rparr>)
      else Raised IndexError st)"

text \<open>batch\_peak\_powder.py, lines 59-67: the same loop, sending \<open>job\<close>.\<close>

fun saturate_powder ::
  "('u list, 'e) run \<Rightarrow> slave list \<Rightarrow> ('u list, 'e, 's) master \<Rightarrow> ('u list, 'e, 's) master outcome" where
  "saturate_powder r [] st = Returned st"
| "saturate_powder r (slave # rest) st =
     (let job = (if job_id st < length (jobs r) then jobs r ! job_id st else []) in
      saturate_powder r rest
        (st\<lparr>trace := trace st @ [Isend_job slave job, Irecv slave],
            reqs := (reqs st)(slave \<mapsto> Pending job),
            job_id := job_id st + 1\<rparr>))"

text \<open>The job of a given number, or the placeholder when the jobs have run out.\<close>

definition job_or_placeholder :: "'u list list \<Rightarrow> nat \<Rightarrow> 'u list" where
  "job_or_placeholder js k = (if k < length js then js ! k else [])"

section \<open>The powder master (batch\_peak\_powder.py)\<close>

text \<open>
  Lines 72-87: one polling pass of the first loop over the slaves that are not finished.
\<close>

fun steady_pass_powder ::
  "('u list, 'e) run \<Rightarrow> slave list \<Rightarrow> ('u list, 'e, 's) master \<Rightarrow> ('u list, 'e, 's) master outcome" where
  "steady_pass_powder r [] st = Returned st"
| "steady_pass_powder r (slave # rest) st =
     (case reqs st slave of
        None \<Rightarrow> Raised KeyError st
      | Some rq \<Rightarrow>
          (let ((finished, result), rq') = test (work r) (answered r (polls st) slave) rq in
           if finished then
             (case result of
                None \<Rightarrow> Raised TypeError (st\<lparr>reqs := (reqs st)(slave \<mapsto> rq')\<rparr>)
              | Some res \<Rightarrow>
                  if job_id st < length (jobs r) then
                    steady_pass_powder r rest
                      (st\<lparr>results := results st @ res,
                          trace := trace st @
                            [Recv slave res, Isend_flag slave (stop st),
                             Isend_job slave (jobs r ! job_id st), Irecv slave],
                          reqs := (reqs st)(slave \<mapsto> Pending (jobs r ! job_id st)),
                          job_id := job_id st + 1\<rparr>)
                  else
                    steady_pass_powder r rest
                      (st\<lparr>results := results st @ res,
                          trace := trace st @ [Recv slave res, Isend_flag slave True],
                          reqs := (reqs st)(slave \<mapsto> rq'),
                          stop := True,
                          finished_slaves := insert slave (finished_slaves st)\<rparr>))
           else steady_pass_powder r rest st))"

text \<open>Lines 68-87: \<open>while job_id < nb_jobs\<close>, with \<open>slaves -= finished_slaves\<close>.\<close>

fun steady_loop_powder ::
  "('u list, 'e) run \<Rightarrow> nat \<Rightarrow> ('u list, 'e, 's) master \<Rightarrow> ('u list, 'e, 's) master outcome" where
  "steady_loop_powder r 0 st =
     (if job_id st < length (jobs r) then Waiting st else Returned st)"
| "steady_loop_powder r (Suc fuel) st =
     (if job_id st < length (jobs r) then
        (case steady_pass_powder r (filter (\<lambda>s. s \<notin> finished_slaves st) (slaves st))
                (st\<lparr>stop := False,
                    slaves := filter (\<lambda>s. s \<notin> finished_slaves st) (slaves st)\<rparr>) of
           Returned st' \<Rightarrow> steady_loop_powder r fuel (st'\<lparr>polls := polls st' + 1\<rparr>)
         | Raised e st' \<Rightarrow> Raised e st'
         | Waiting st' \<Rightarrow> Waiting st')
      else Returned st)"

text \<open>Lines 93-102: one pass of the second loop.\<close>

fun drain_pass_powder ::
  "('u list, 'e) run \<Rightarrow> slave list \<Rightarrow> ('u list, 'e, 's) master \<Rightarrow> ('u list, 'e, 's) master outcome" where
  "drain_pass_powder r [] st = Returned st"
| "drain_pass_powder r (slave # rest) st =
     (case reqs st slave of
        None \<Rightarrow> Raised KeyError st
      | Some rq \<Rightarrow>
          (let ((finished, result), rq') = test (work r) (answered r (polls st) slave) rq in
           if finished then
             (case result of
                None \<Rightarrow> Raised TypeError (st\<lparr>reqs := (reqs st)(slave \<mapsto> rq')\<rparr>)
              | Some res \<Rightarrow>
                  drain_pass_powder r rest
                    (st\<lparr>results := results st @ res,
                        stop := True,
                        trace := trace st @ [Recv slave res, Isend_flag slave True],
                        reqs := (reqs st)(slave \<mapsto> rq'),
                        finished_slaves := insert slave (finished_slaves st)\<rparr>))
           else drain_pass_powder r rest (st\<lparr>all_done := False\<rparr>)))"

text \<open>Lines 89-102: \<open>while not all_done\<close>.\<close>

fun drain_loop_powder ::
  "('u list, 'e) run \<Rightarrow> nat \<Rightarrow> ('u list, 'e, 's) master \<Rightarrow> ('u list, 'e, 's) master outcome" where
  "drain_loop_powder r 0 st = (if all_done st then Returned st else Waiting st)"
| "drain_loop_powder r (Suc fuel) st =
     (if all_done st then Returned st
      else
        (case drain_pass_powder r (filter (\<lambda>s. s \<notin> finished_slaves st) (slaves st))
                (st\<lparr>all_done := True,
                    slaves := filter (\<lambda>s. s \<notin> finished_slaves st) (slaves st)\<rparr>) of
           Returned st' \<Rightarrow> drain_loop_powder r fuel (st'\<lparr>polls := polls st' + 1\<rparr>)
         | Raised e st' \<Rightarrow> Raised e st'
         | Waiting st' \<Rightarrow> Waiting st'))"

text \<open>
  \<open>master_run\<close> of batch\_peak\_powder.py, lines 53-102: the dispatch, up to the point
  where every answer is in \<open>peaks\<close>. The powder pattern built from them afterwards is
  not part of this model.
\<close>

definition master_run_powder ::
  "('u list, 'e) run \<Rightarrow> nat \<Rightarrow> ('u list, 'e, 's) master outcome" where
  "master_run_powder r fuel =
     (case saturate_powder r [1..<comm_size r] (init_master (comm_size r)) of
        Returned st1 \<Rightarrow>
          (case steady_loop_powder r fuel st1 of
             Returned st2 \<Rightarrow> drain_loop_powder r fuel (st2\<lparr>all_done := False\<rparr>)
           | Raised e st2 \<Rightarrow> Raised e st2
           | Waiting st2 \<Rightarrow> Waiting st2)
      | Raised e st1 \<Rightarrow> Raised e st1
      | Waiting st1 \<Rightarrow> Waiting st1)"

section \<open>The peak2cxi master (batch\_peak2cxi.py)\<close>

text \<open>The dictionary written to \<open>peak2cxi.yml\<close>.\<close>

record stat_peak2cxi =
  cxi_progress :: progress_value
  cxi_duration :: duration_value
  cxi_total_jobs :: nat

text \<open>Lines 78-92 of batch\_peak2cxi.py: the result of \<open>test()\<close> is not used.\<close>

fun steady_pass_peak2cxi ::
  "('u list, 'e) run \<Rightarrow> slave list \<Rightarrow> ('u list, 'e, 's) master \<Rightarrow> ('u list, 'e, 's) master outcome" where
  "steady_pass_peak2cxi r [] st = Returned st"
| "steady_pass_peak2cxi r (slave # rest) st =
     (case reqs st slave of
        None \<Rightarrow> Raised KeyError st
      | Some rq \<Rightarrow>
          (let ((finished, result), rq') = test (work r) (answered r (polls st) slave) rq in
           if finished then
             (if job_id st < length (jobs r) then
                steady_pass_peak2cxi r rest
                  (st\<lparr>trace := trace st @
                        (case result of Some res \<Rightarrow> [Recv slave res] | None \<Rightarrow> []) @
                        [Isend_flag slave (stop st),
                         Isend_job slave (jobs r ! job_id st), Irecv slave],
                      reqs := (reqs st)(slave \<mapsto> Pending (jobs r ! job_id st)),
                      job_id := job_id st + 1\<rparr>)
              else
                steady_pass_peak2cxi r rest
                  (st\<lparr>trace := trace st @
                        (case result of Some res \<Rightarrow> [Recv slave res] | None \<Rightarrow> []) @
                        [Isend_flag slave True],
                      reqs := (reqs st)(slave \<mapsto> rq'),
                      stop := True,
                      finished_slaves := insert slave (finished_slaves st)\<rparr>))
           else steady_pass_peak2cxi r rest st))"

text \<open>Lines 93-103: the progress file \<open>peak2cxi.yml\<close>.\<close>

definition update_stat_peak2cxi ::
  "('u list, 'e) run \<Rightarrow> ('u list, 'e, stat_peak2cxi) master
     \<Rightarrow> ('u list, 'e, stat_peak2cxi) master outcome" where
  "update_stat_peak2cxi r st =
     (if update_freq r = 0 then Raised ZeroDivisionError st
      else if int (job_id st) mod update_freq r = 0 then
        (if length (jobs r) = 0 then Raised ZeroDivisionError st
         else
           (let progress = of_nat (job_id st) / of_nat (length (jobs r)) * 100;
                stat_dict =
                  \<lparr>cxi_progress = Percent progress, cxi_duration = Not_finished,
                   cxi_total_jobs = length (jobs r)\<rparr>
            in Returned (st\<lparr>stat_file := Some stat_dict,
                            trace := trace st @ [Write_stat stat_dict]\<rparr>)))
      else Returned st)"

text \<open>Lines 74-103: \<open>while job_id < nb_jobs\<close>.\<close>

fun steady_loop_peak2cxi ::
  "('u list, 'e) run \<Rightarrow> nat \<Rightarrow> ('u list, 'e, stat_peak2cxi) master
     \<Rightarrow> ('u list, 'e, stat_peak2cxi) master outcome" where
  "steady_loop_peak2cxi r 0 st =
     (if job_id st < length (jobs r) then Waiting st else Returned st)"
| "steady_loop_peak2cxi r (Suc fuel) st =
     (if job_id st < length (jobs r) then
        (case steady_pass_peak2cxi r (filter (\<lambda>s. s \<notin> finished_slaves st) (slaves st))
                (st\<lparr>stop := False,
                    slaves := filter (\<lambda>s. s \<notin> finished_slaves st) (slaves st)\<rparr>) of
           Returned st' \<Rightarrow>
             (case update_stat_peak2cxi r (st'\<lparr>polls := polls st' + 1\<rparr>) of
                Returned st'' \<Rightarrow> steady_loop_peak2cxi r fuel st''
              | Raised e st'' \<Rightarrow> Raised e st''
              | Waiting st'' \<Rightarrow> Waiting st'')
         | Raised e st' \<Rightarrow> Raised e st'
         | Waiting st' \<Rightarrow> Waiting st')
      else Returned st)"

text \<open>Lines 110-117: one pass of the second loop.\<close>

fun drain_pass_peak2cxi ::
  "('u list, 'e) run \<Rightarrow> slave list \<Rightarrow> ('u list, 'e, 's) master \<Rightarrow> ('u list, 'e, 's) master outcome" where
  "drain_pass_peak2cxi r [] st = Returned st"
| "drain_pass_peak2cxi r (slave # rest) st =
     (case reqs st slave of
        None \<Rightarrow> Raised KeyError st
      | Some rq \<Rightarrow>
          (let ((finished, result), rq') = test (work r) (answered r (polls st) slave) rq in
           if finished then
             drain_pass_peak2cxi r rest
               (st\<lparr>stop := True,
                   trace := trace st @
                     (case result of Some res \<Rightarrow> [Recv slave res] | None \<Rightarrow> []) @
                     [Isend_flag slave True],
                   reqs := (reqs st)(slave \<mapsto> rq'),
                   finished_slaves := insert slave (finished_slaves st)\<rparr>)
           else drain_pass_peak2cxi r rest (st\<lparr>all_done := False\<rparr>)))"

text \<open>Lines 105-117: \<open>while not all_done\<close>.\<close>

fun drain_loop_peak2cxi ::
  "('u list, 'e) run \<Rightarrow> nat \<Rightarrow> ('u list, 'e, 's) master \<Rightarrow> ('u list, 'e, 's) master outcome" where
  "drain_loop_peak2cxi r 0 st = (if all_done st then Returned st else Waiting st)"
| "drain_loop_peak2cxi r (Suc fuel) st =
     (if all_done st then Returned st
      else
        (case drain_pass_peak2cxi r (filter (\<lambda>s. s \<notin> finished_slaves st) (slaves st))
                (st\<lparr>all_done := True,
                    slaves := filter (\<lambda>s. s \<notin> finished_slaves st) (slaves st)\<rparr>) of
           Returned st' \<Rightarrow> drain_loop_peak2cxi r fuel (st'\<lparr>polls := polls st' + 1\<rparr>)
         | Raised e st' \<Rightarrow> Raised e st'
         | Waiting st' \<Rightarrow> Waiting st'))"

text \<open>Lines 118-128: the last \<open>peak2cxi.yml\<close>.\<close>

definition finalize_peak2cxi ::
  "('u list, 'e) run \<Rightarrow> ('u list, 'e, stat_peak2cxi) master
     \<Rightarrow> ('u list, 'e, stat_peak2cxi) master outcome" where
  "finalize_peak2cxi r st =
     (let duration = time_end r - time_start r;
          stat_dict =
            \<lparr>cxi_progress = Done, cxi_duration = Seconds duration,
             cxi_total_jobs = length (jobs r)\<rparr>
      in Returned (st\<lparr>stat_file := Some stat_dict,
                      trace := trace st @ [Write_stat stat_dict]\<rparr>))"

text \<open>\<open>master_run\<close> of batch\_peak2cxi.py from line 59 on.\<close>

definition master_run_peak2cxi ::
  "('u list, 'e) run \<Rightarrow> nat \<Rightarrow> ('u list, 'e, stat_peak2cxi) master outcome" where
  "master_run_peak2cxi r fuel =
     (case saturate_peak2cxi r [1..<comm_size r] (init_master (comm_size r)) of
        Returned st1 \<Rightarrow>
          (case steady_loop_peak2cxi r fuel st1 of
             Returned st2 \<Rightarrow>
               (case drain_loop_peak2cxi r fuel (st2\<lparr>all_done := False\<rparr>) of
                  Returned st3 \<Rightarrow> finalize_peak2cxi r st3
                | Raised e st3 \<Rightarrow> Raised e st3
                | Waiting st3 \<Rightarrow> Waiting st3)
           | Raised e st2 \<Rightarrow> Raised e st2
           | Waiting st2 \<Rightarrow> Waiting st2)
      | Raised e st1 \<Rightarrow> Raised e st1
      | Waiting st1 \<Rightarrow> Waiting st1)"

section \<open>The job partition of batch\_peak2cxi.py\<close>

text \<open>
  \<open>np.array_split(ary, n)\<close> (NumPy): for an array of length \<open>l\<close> it returns
  \<open>l % n\<close> sections of size \<open>l // n + 1\<close> followed by the others of size
  \<open>l // n\<close>, in order, and raises ValueError when \<open>n\<close> is not positive.
\<close>

definition section_sizes :: "nat \<Rightarrow> nat \<Rightarrow> nat list" where
  "section_sizes ntotal nsections =
     replicate (ntotal mod nsections) (ntotal div nsections + 1)
       @ replicate (nsections - ntotal mod nsections) (ntotal div nsections)"

fun split_sections :: "nat list \<Rightarrow> 'a list \<Rightarrow> 'a list list" where
  "split_sections [] ary = []"
| "split_sections (n # ns) ary = take n ary # split_sections ns (drop n ary)"

definition array_split :: "'a list \<Rightarrow> int \<Rightarrow> error + 'a list list" where
  "array_split ary nsections =
     (if nsections \<le> 0 then Inl ValueError
      else Inr (split_sections (section_sizes (length ary) (nat nsections)) ary))"

text \<open>
  Lines 44-51. \<open>int(np.ceil(len(peak_info) / batch_size))\<close> is the ceiling of the
  quotient, \<open>-((-n) // batch\_size)\<close>; the division raises ZeroDivisionError for a
  batch size of 0. (The quotient is a double in the source; it is exact for lengths
  below \<open>2^53\<close>.) \<open>peak_info[ids[i]]\<close> takes the records at the indices of section
  \<open>i\<close>.
\<close>

definition nb_jobs_peak2cxi :: "nat \<Rightarrow> int \<Rightarrow> error + int" where
  "nb_jobs_peak2cxi n batch_size =
     (if batch_size = 0 then Inl ZeroDivisionError
      else Inr (- ((- int n) div batch_size)))"

definition jobs_peak2cxi :: "'a list \<Rightarrow> int \<Rightarrow> error + 'a list list" where
  "jobs_peak2cxi peak_info batch_size =
     (case nb_jobs_peak2cxi (length peak_info) batch_size of
        Inl e \<Rightarrow> Inl e
      | Inr nb_jobs \<Rightarrow>
          (case array_split [0..<length peak_info] nb_jobs of
             Inl e \<Rightarrow> Inl e
           | Inr ids \<Rightarrow> Inr (map (\<lambda>idx. map (\<lambda>i. peak_info ! i) idx) ids)))"

text \<open>The ceiling of \<open>n / b\<close> on the natural numbers.\<close>

definition ceil_quot :: "nat \<Rightarrow> nat \<Rightarrow> nat" where
  "ceil_quot n b = (if n mod b = 0 then n div b else n div b + 1)"

section \<open>The compaction slave (batch\_peak2cxi.py)\<close>

text \<open>
  The name of an artifact, lines 158-160 and 174-176:
  \<open>os.path.join(hit_dir, '%s-rank%d-job%d.cxi' % (prefix, rank, count))\<close>.
  \<open>str_nat\<close> is \<open>'%d'\<close> on a natural number, \<open>path_join\<close> is
  \<open>os.path.join\<close> on two POSIX paths.
\<close>

definition digit_char :: "nat \<Rightarrow> char" where
  "digit_char d = ''0123456789'' ! d"

fun str_nat :: "nat \<Rightarrow> string" where
  "str_nat n = (if n < 10 then [digit_char n] else str_nat (n div 10) @ [digit_char (n mod 10)])"

declare str_nat.simps [simp del]

definition path_join :: "string \<Rightarrow> string \<Rightarrow> string" where
  "path_join a b =
     (if b \<noteq> [] \<and> hd b = CHR ''/'' then b
      else if a = [] \<or> last a = CHR ''/'' then a @ b
      else a @ ''/'' @ b)"

text \<open>
  The options a slave reads: \<open>hit-dir\<close>, the prefix (the base name of the peak file up
  to its first dot), its rank, \<open>--min-peak\<close> and \<open>--cxi-size\<close>.
\<close>

record cxi_args =
  cxi_hit_dir :: string
  cxi_prefix :: string
  cxi_rank :: nat
  cxi_min_peak :: int
  cxi_size :: int

definition cxi_file :: "cxi_args \<Rightarrow> nat \<Rightarrow> string" where
  "cxi_file a n =
     path_join (cxi_hit_dir a)
       (cxi_prefix a @ ''-rank'' @ str_nat (cxi_rank a) @ ''-job'' @ str_nat n @ ''.cxi'')"

text \<open>
  What a slave does, in order: the artifacts it writes with \<open>util.save_full_cxi\<close>,
  the jobs it sends back, and the final \<open>done\<close>. Its variables are the buffer
  \<open>batch\<close> and the counter \<open>count\<close>.
\<close>

datatype 'u slave_event = Save_full_cxi string "'u list" | Send_job "'u list" | Send_done

record 'u compressor =
  batch :: "'u list"
  count :: nat
  sent :: "'u slave_event list"

text \<open>Lines 153-168: the loop over the records of one job.\<close>

fun compress_job ::
  "cxi_args \<Rightarrow> 'x hit_scheme list \<Rightarrow> 'x hit_scheme compressor \<Rightarrow> 'x hit_scheme compressor" where
  "compress_job a [] w = w"
| "compress_job a (u # us) w =
     (let w1 = (if cxi_min_peak a \<le> nb_peak u then w\<lparr>batch := batch w @ [u]\<rparr> else w);
          w2 = (if int (length (batch w1)) = cxi_size a then
                  w1\<lparr>sent := sent w1 @ [Save_full_cxi (cxi_file a (count w1)) (batch w1)],
                     batch := [],
                     count := count w1 + 1\<rparr>
                else w1)
      in compress_job a us w2)"

text \<open>
  Lines 151-170: \<open>while not stop\<close>. The slave receives a job, works on it, sends it
  back and receives the flag. The messages of the master are the list of pairs; when
  they run out before a stop flag, the slave stays blocked in \<open>comm.recv\<close>.
\<close>

fun slave_loop_peak2cxi ::
  "cxi_args \<Rightarrow> ('x hit_scheme list \<times> bool) list \<Rightarrow> 'x hit_scheme compressor
     \<Rightarrow> 'x hit_scheme compressor option" where
  "slave_loop_peak2cxi a [] w = None"
| "slave_loop_peak2cxi a ((job, stop_flag) # msgs) w =
     (let w1 = compress_job a job w;
          w2 = w1\<lparr>sent := sent w1 @ [Send_job job]\<rparr>
      in if stop_flag then Some w2 else slave_loop_peak2cxi a msgs w2)"

text \<open>Lines 149-182: the loop, the last flush, and \<open>comm.send(done)\<close>.\<close>

definition slave_run_peak2cxi ::
  "cxi_args \<Rightarrow> ('x hit_scheme list \<times> bool) list \<Rightarrow> 'x hit_scheme compressor option" where
  "slave_run_peak2cxi a msgs =
     (case slave_loop_peak2cxi a msgs \<lparr>batch = [], count = 0, sent = []\<rparr> of
        None \<Rightarrow> None
      | Some w \<Rightarrow>
          (let w1 = (if length (batch w) > 0 then
                       w\<lparr>sent := sent w @ [Save_full_cxi (cxi_file a (count w)) (batch w)]\<rparr>
                     else w)
           in Some (w1\<lparr>sent := sent w1 @ [Send_done]\<rparr>)))"

text \<open>
  The artifacts in a slave's events, the records a slave accepts, and what holds between
  the accepted records and a slave's state after each record when the capacity is
  positive: the buffer is shorter than the capacity, the artifacts written so far have
  the capacity as their size and the names of the counter values so far, and they and
  the buffer together hold the accepted records in order.
\<close>

fun saved :: "'u slave_event list \<Rightarrow> (string \<times> 'u list) list" where
  "saved [] = []"
| "saved (Save_full_cxi name b # es) = (name, b) # saved es"
| "saved (e # es) = saved es"

definition accepted :: "cxi_args \<Rightarrow> 'x hit_scheme list \<Rightarrow> 'x hit_scheme list" where
  "accepted a us = filter (\<lambda>u. cxi_min_peak a \<le> nb_peak u) us"

definition flushed :: "cxi_args \<Rightarrow> 'u list \<Rightarrow> 'u compressor \<Rightarrow> bool" where
  "flushed a acc w \<longleftrightarrow>
     int (length (batch w)) < cxi_size a
     \<and> acc = concat (map snd (saved (sent w))) @ batch w
     \<and> (\<forall>b \<in> set (map snd (saved (sent w))). int (length b) = cxi_size a)
     \<and> map fst (saved (sent w)) = map (cxi_file a) [0..<count w]"

section \<open>Example inputs\<close>

text \<open>
  A peak finder with 0, 3, 1 and 5 strong peaks on the frames 0 to 3, jobs of one frame,
  and runs of the hit finder with an acceptance threshold of 2.
\<close>

definition example_peaks :: "string \<Rightarrow> nat \<Rightarrow> (int \<times> int) list option" where
  "example_peaks path n =
     (if n = 0 then None
      else if n = 1 then Some [(1, 1), (2, 5), (7, 3)]
      else if n = 2 then Some [(4, 4)]
      else Some [(1, 2), (3, 4), (5, 6), (7, 8), (9, 10)])"

definition example_job :: "nat \<Rightarrow> frame_unit list" where
  "example_job n = [\<lparr>filepath = ''a.cxi'', frame = n\<rparr>]"

definition example_run ::
  "frame_unit list list \<Rightarrow> nat \<Rightarrow> int \<Rightarrow> (nat \<Rightarrow> slave \<Rightarrow> bool) \<Rightarrow> hit_run" where
  "example_run js n freq ans =
     \<lparr>jobs = js, comm_size = n, work = slave_job_hit example_peaks, answered = ans,
      min_peak = 2, update_freq = freq, time_start = 100, time_end = 160\<rparr>"

definition two_slaves_two_jobs :: hit_run where
  "two_slaves_two_jobs = example_run [example_job 0, example_job 1] 3 10 (\<lambda>p s. True)"

definition two_slaves_five_jobs :: hit_run where
  "two_slaves_five_jobs =
     example_run [example_job 0, example_job 1, example_job 2, example_job 3, example_job 0]
       3 3 (\<lambda>p s. True)"

definition three_slaves_four_jobs :: hit_run where
  "three_slaves_four_jobs =
     example_run [example_job 0, example_job 1, example_job 2, example_job 3] 4 10
       (\<lambda>p s. s = 1 \<and> (p = 0 \<or> 3 \<le> p) \<or> s = 2 \<and> 1 \<le> p \<or> s = 3 \<and> 2 \<le> p)"



definition more_slaves_than_jobs :: "(hit list, hit) run" where
  "more_slaves_than_jobs =
     \<lparr>jobs = [[\<lparr>filepath = ''a.cxi'', frame = 0, nb_peak = 25\<rparr>]], comm_size = 3,
      work = (\<lambda>job. job), answered = (\<lambda>p s. True), min_peak = 20, update_freq = 10,
      time_start = 100, time_end = 160\<rparr>"

definition example_args :: cxi_args where
  "example_args =
     \<lparr>cxi_hit_dir = ''hits'', cxi_prefix = ''peaks'', cxi_rank = 12, cxi_min_peak = 20,
      cxi_size = 2\<rparr>"

definition example_hit :: "nat \<Rightarrow> int \<Rightarrow> hit" where
  "example_hit n p = \<lparr>filepath = ''a.cxi'', frame = n, nb_peak = p\<rparr>"

section \<open>Theorems\<close>

subsection \<open>Manifest lines\<close>







subsection \<open>Entry points\<close>

text \<open>
  C6, as the code has it. With exactly one process each of the three programs prints
  its message and leaves through \<open>sys.exit()\<close> before it takes a role, so no worker
  is engaged; the exit status is 0.
\<close>

theorem single_process_exit:
  "main_hit_finder 1 rank = Exited [''Run batch hit finder with at least 2 processes!''] 0
   \<and> main_peak2cxi 1 rank = Exited [''Run batch peak2cxi with at least 2 processes!''] 0
   \<and> main_peak_powder 1 rank = Exited [''Run batch hit finder with at least 2 processes!''] 0"
  by (simp add: main_hit_finder_def main_peak2cxi_def main_peak_powder_def sys_exit_def)

text \<open>
  C6, as the claim states it, fails: the exit status of a single-process run is not
  different from 0.
\<close>

theorem single_process_exit_status_counterexample:
  "\<not> (exit_status (main_hit_finder 1 0) \<noteq> Some 0)"
  by (simp add: main_hit_finder_def sys_exit_def)

subsection \<open>One outstanding job per slave\<close>

lemma counts_append [simp]:
  "sent_jobs s (xs @ ys) = sent_jobs s xs + sent_jobs s ys"
  "armed s (xs @ ys) = armed s xs + armed s ys"
  "received s (xs @ ys) = received s xs + received s ys"
  by (simp_all add: sent_jobs_def armed_def received_def)

lemma counts_Nil [simp]:
  "sent_jobs s [] = 0" "armed s [] = 0" "received s [] = 0"
  by (simp_all add: sent_jobs_def armed_def received_def)

lemma counts_Cons [simp]:
  "sent_jobs s (e # es) = (if is_job_to s e then 1 else 0) + sent_jobs s es"
  "armed s (e # es) = (if is_irecv_from s e then 1 else 0) + armed s es"
  "received s (e # es) = (if is_result_from s e then 1 else 0) + received s es"
  by (simp_all add: sent_jobs_def armed_def received_def)

lemma paired_Nil: "paired [] Map.empty"
  by (simp add: paired_def one_outstanding_def)

lemma paired_snoc:
  assumes "paired tr rq"
    and "\<And>s. one_outstanding s (tr @ [e])"
    and "\<And>s. armed s (tr @ [e]) = received s (tr @ [e]) + pending (rq' s) \<and>
          sent_jobs s (tr @ [e]) = received s (tr @ [e]) + pending (rq' s)"
  shows "paired (tr @ [e]) rq'"
  using assms unfolding paired_def by (auto simp: prefix_snoc)

lemma paired_quiet:
  assumes "paired tr rq" "\<And>s. \<not> is_job_to s e" "\<And>s. \<not> is_irecv_from s e" "\<And>s. \<not> is_result_from s e"
  shows "paired (tr @ [e]) rq"
  using assms unfolding paired_def by (auto simp: prefix_snoc one_outstanding_def)

lemma paired_flag: "paired tr rq \<Longrightarrow> paired (tr @ [Isend_flag s b]) rq"
  by (rule paired_quiet) simp_all

lemma paired_stat: "paired tr rq \<Longrightarrow> paired (tr @ [Write_stat sd]) rq"
  by (rule paired_quiet) simp_all

lemma paired_csv: "paired tr rq \<Longrightarrow> paired (tr @ [Write_csv sd]) rq"
  by (rule paired_quiet) simp_all

lemma paired_send:
  assumes "paired tr rq" "pending (rq s) = 0"
  shows "paired (tr @ [Isend_job s j, Irecv s]) (rq(s \<mapsto> Pending j))"
proof -
  have a: "\<And>s'. armed s' tr = received s' tr + pending (rq s')"
       "\<And>s'. sent_jobs s' tr = received s' tr + pending (rq s')"
    using assms(1) by (simp_all add: paired_def)
  have p: "\<And>p s'. prefix p tr \<Longrightarrow> one_outstanding s' p"
    using assms(1) by (simp add: paired_def)
  have "prefix p (tr @ [Isend_job s j, Irecv s]) \<Longrightarrow> one_outstanding s' p" for p s'
  proof -
    assume "prefix p (tr @ [Isend_job s j, Irecv s])"
    then have "prefix p tr \<or> p = tr @ [Isend_job s j] \<or> p = tr @ [Isend_job s j, Irecv s]"
      using prefix_snoc [of p "tr @ [Isend_job s j]" "Irecv s"] prefix_snoc [of p tr "Isend_job s j"]
      by auto
    then show ?thesis
      using p [of p s'] p [of tr s'] a [of s'] assms(2)
      by (auto simp: one_outstanding_def)
  qed
  then show ?thesis
    using a assms(2) by (auto simp: paired_def)
qed

lemma paired_recv:
  assumes "paired tr rq" "rq s = Some (Pending j)"
  shows "paired (tr @ [Recv s res]) (rq(s \<mapsto> Completed))"
proof (rule paired_snoc [OF assms(1)])
  have a: "\<And>s'. armed s' tr = received s' tr + pending (rq s')"
       "\<And>s'. sent_jobs s' tr = received s' tr + pending (rq s')"
    using assms(1) by (simp_all add: paired_def)
  show "one_outstanding s' (tr @ [Recv s res])" for s'
    using a [of s'] assms(2) assms(1) by (auto simp: one_outstanding_def paired_def)
  show "armed s' (tr @ [Recv s res]) = received s' (tr @ [Recv s res]) + pending ((rq(s \<mapsto> Completed)) s') \<and>
        sent_jobs s' (tr @ [Recv s res]) = received s' (tr @ [Recv s res]) + pending ((rq(s \<mapsto> Completed)) s')" for s'
    using a [of s'] assms(2) by auto
qed

lemma paired_completed:
  "paired tr rq \<Longrightarrow> rq s = Some Completed \<Longrightarrow> paired tr (rq(s \<mapsto> Completed))"
  by (simp add: paired_def)

lemma paired_saturate_hit:
  "paired (trace st) (reqs st) \<Longrightarrow> distinct ss \<Longrightarrow> \<forall>s \<in> set ss. pending (reqs st s) = 0 \<Longrightarrow>
   paired (trace (state_of (saturate_hit r ss st))) (reqs (state_of (saturate_hit r ss st)))"
proof (induction ss arbitrary: st)
  case Nil
  then show ?case by simp
next
  case (Cons slave rest)
  show ?case
  proof (cases "job_id st < length (jobs r)")
    case True
    let ?st = "st\<lparr>trace := trace st @ [Isend_job slave (jobs r ! job_id st), Irecv slave],
              reqs := (reqs st)(slave \<mapsto> Pending (jobs r ! job_id st)),
              job_id := job_id st + 1\<rparr>"
    have eq: "saturate_hit r (slave # rest) st = saturate_hit r rest ?st"
      using True by simp
    have "paired (trace ?st) (reqs ?st)"
      using paired_send [OF Cons.prems(1), of slave] Cons.prems(3) by simp
    moreover have "distinct rest" using Cons.prems(2) by simp
    moreover have "\<forall>s \<in> set rest. pending (reqs ?st s) = 0"
      using Cons.prems(2,3) by auto
    ultimately show ?thesis
      unfolding eq by (rule Cons.IH)
  next
    case False
    then show ?thesis using Cons.prems(1) by simp
  qed
qed

lemma paired_steady_pass_hit:
  "paired (trace st) (reqs st) \<Longrightarrow>
   paired (trace (state_of (steady_pass_hit r ss st))) (reqs (state_of (steady_pass_hit r ss st)))"
proof (induction ss arbitrary: st)
  case Nil
  then show ?case by simp
next
  case (Cons slave rest)
  show ?case
  proof (cases "reqs st slave")
    case None
    then show ?thesis using Cons.prems by simp
  next
    case (Some rq)
    show ?thesis
    proof (cases rq)
      case Completed
      then have "(reqs st)(slave \<mapsto> Completed) = reqs st"
        using Some by (simp add: map_upd_triv)
      then show ?thesis
        using Some Completed Cons.prems by (simp add: test_def)
    next
      case (Pending job)
      show ?thesis
      proof (cases "answered r (polls st) slave")
        case False
        then have "steady_pass_hit r (slave # rest) st = steady_pass_hit r rest st"
          using Some Pending by (simp add: test_def)
        then show ?thesis using Cons.IH [OF Cons.prems] by simp
      next
        case True
        have rc: "paired (trace st @ [Recv slave (work r job)]) ((reqs st)(slave \<mapsto> Completed))"
          using paired_recv [OF Cons.prems] Some Pending by simp
        show ?thesis
        proof (cases "job_id st < length (jobs r)")
          case lt: True
          let ?st = "st\<lparr>results := results st @ work r job,
                          trace := trace st @
                            [Recv slave (work r job), Isend_flag slave (stop st),
                             Isend_job slave (jobs r ! job_id st), Irecv slave],
                          reqs := (reqs st)(slave \<mapsto> Pending (jobs r ! job_id st)),
                          job_id := job_id st + 1\<rparr>"
          have eq: "steady_pass_hit r (slave # rest) st = steady_pass_hit r rest ?st"
            using Some Pending True lt by (simp add: test_def)
          have "paired ((trace st @ [Recv slave (work r job)]) @ [Isend_flag slave (stop st)])
                  ((reqs st)(slave \<mapsto> Completed))"
            using rc by (rule paired_flag)
          then have "paired (((trace st @ [Recv slave (work r job)]) @ [Isend_flag slave (stop st)])
                   @ [Isend_job slave (jobs r ! job_id st), Irecv slave])
                  (((reqs st)(slave \<mapsto> Completed))(slave \<mapsto> Pending (jobs r ! job_id st)))"
            by (rule paired_send) simp
          then have "paired (trace ?st) (reqs ?st)" by simp
          then show ?thesis unfolding eq by (rule Cons.IH)
        next
          case ge: False
          let ?st = "st\<lparr>results := results st @ work r job,
                          trace := trace st @ [Recv slave (work r job), Isend_flag slave True],
                          reqs := (reqs st)(slave \<mapsto> Completed),
                          stop := True\<rparr>"
          have eq: "steady_pass_hit r (slave # rest) st = steady_pass_hit r rest ?st"
            using Some Pending True ge by (simp add: test_def)
          have "paired ((trace st @ [Recv slave (work r job)]) @ [Isend_flag slave True])
                  ((reqs st)(slave \<mapsto> Completed))"
            using rc by (rule paired_flag)
          then have "paired (trace ?st) (reqs ?st)" by simp
          then show ?thesis unfolding eq by (rule Cons.IH)
        qed
      qed
    qed
  qed
qed

lemma paired_update_stat_hit:
  "paired (trace st) (reqs st) \<Longrightarrow>
   paired (trace (state_of (update_stat_hit r st))) (reqs (state_of (update_stat_hit r st)))"
  by (simp add: update_stat_hit_def Let_def paired_stat)

lemma paired_steady_iteration_hit:
  assumes "paired (trace st) (reqs st)"
  shows "paired (trace (state_of (steady_iteration_hit r st))) (reqs (state_of (steady_iteration_hit r st)))"
proof -
  have "paired (trace (st\<lparr>stop := False\<rparr>)) (reqs (st\<lparr>stop := False\<rparr>))"
    using assms by simp
  from paired_steady_pass_hit [OF this, of r "slaves st"]
  show ?thesis
    using paired_update_stat_hit [of "st'\<lparr>polls := polls st' + 1\<rparr>" r for st']
    by (auto simp: steady_iteration_hit_def split: outcome.splits)
qed

lemma paired_steady_loop_hit:
  "paired (trace st) (reqs st) \<Longrightarrow>
   paired (trace (state_of (steady_loop_hit r fuel st))) (reqs (state_of (steady_loop_hit r fuel st)))"
proof (induction fuel arbitrary: st)
  case 0
  then show ?case by simp
next
  case (Suc fuel)
  from paired_steady_iteration_hit [OF Suc.prems, of r] Suc.IH Suc.prems
  show ?case by (auto split: outcome.splits)
qed

lemma paired_drain_pass_hit:
  "paired (trace st) (reqs st) \<Longrightarrow>
   paired (trace (state_of (drain_pass_hit r i st))) (reqs (state_of (drain_pass_hit r i st)))"
proof (induction r i st rule: drain_pass_hit.induct)
  case (1 r i st)
  show ?case
  proof (cases "i < length (slaves st)")
    case False
    then show ?thesis using "1.prems" by simp
  next
    case i: True
    let ?s = "slaves st ! i"
    show ?thesis
    proof (cases "reqs st ?s")
      case None
      then show ?thesis using i "1.prems" by simp
    next
      case (Some rq)
      show ?thesis
      proof (cases rq)
        case Completed
        then have "(reqs st)(?s \<mapsto> Completed) = reqs st"
          using Some by (simp add: map_upd_triv)
        then show ?thesis
          using i Some Completed "1.prems" by (simp add: test_def)
      next
        case (Pending job)
        show ?thesis
        proof (cases "answered r (polls st) ?s")
          case False
          have t: "test (work r) (answered r (polls st) ?s) rq = ((False, None), rq)"
            using False Pending by (simp add: test_def)
          have "paired (trace (st\<lparr>all_done := False\<rparr>)) (reqs (st\<lparr>all_done := False\<rparr>))"
            using "1.prems" by simp
          from "1.IH"(2) [OF i Some t [symmetric] refl refl _ this]
          show ?thesis
            using i Some t by (subst drain_pass_hit.simps) simp
        next
          case True
          have t: "test (work r) (answered r (polls st) ?s) rq = ((True, Some (work r job)), Completed)"
            using True Pending by (simp add: test_def)
          let ?st = "st\<lparr>results := results st @ work r job,
                           slaves := remove1 ?s (slaves st),
                           stop := True,
                           trace := trace st @ [Recv ?s (work r job), Isend_flag ?s True],
                           reqs := (reqs st)(?s \<mapsto> Completed)\<rparr>"
          have "paired ((trace st @ [Recv ?s (work r job)]) @ [Isend_flag ?s True])
                  ((reqs st)(?s \<mapsto> Completed))"
            using paired_recv [OF "1.prems"] Some Pending by (intro paired_flag) simp
          then have "paired (trace ?st) (reqs ?st)" by simp
          from "1.IH"(1) [OF i Some t [symmetric] refl refl _ _ this]
          show ?thesis
            using i Some t by (subst drain_pass_hit.simps) simp
        qed
      qed
    qed
  qed
qed

lemma paired_drain_loop_hit:
  "paired (trace st) (reqs st) \<Longrightarrow>
   paired (trace (state_of (drain_loop_hit r fuel st))) (reqs (state_of (drain_loop_hit r fuel st)))"
proof (induction fuel arbitrary: st)
  case 0
  then show ?case by simp
next
  case (Suc fuel)
  show ?case
  proof (cases "all_done st")
    case True
    then show ?thesis using Suc.prems by simp
  next
    case False
    have "paired (trace (st\<lparr>all_done := True\<rparr>)) (reqs (st\<lparr>all_done := True\<rparr>))"
      using Suc.prems by simp
    from paired_drain_pass_hit [OF this, of r 0]
    have p: "paired (trace (state_of (drain_pass_hit r 0 (st\<lparr>all_done := True\<rparr>))))
               (reqs (state_of (drain_pass_hit r 0 (st\<lparr>all_done := True\<rparr>))))" .
    show ?thesis
    proof (cases "drain_pass_hit r 0 (st\<lparr>all_done := True\<rparr>)")
      case (Returned st')
      with p have "paired (trace (st'\<lparr>polls := polls st' + 1\<rparr>)) (reqs (st'\<lparr>polls := polls st' + 1\<rparr>))"
        by simp
      from Suc.IH [OF this] show ?thesis using False Returned by simp
    next
      case (Raised e st')
      with p show ?thesis using False by simp
    next
      case (Waiting st')
      with p show ?thesis using False by simp
    qed
  qed
qed

lemma paired_finalize_hit:
  assumes "paired (trace st) (reqs st)"
  shows "paired (trace (state_of (finalize_hit r st))) (reqs (state_of (finalize_hit r st)))"
proof -
  have c: "paired (trace st @ [Write_csv (results st)]) (reqs st)"
    using assms by (rule paired_csv)
  show ?thesis
  proof (cases "results st = []")
    case True
    then show ?thesis using c by (simp add: finalize_hit_def Let_def)
  next
    case False
    then show ?thesis
      using paired_stat [OF c] by (simp add: finalize_hit_def Let_def)
  qed
qed

lemma paired_master_run_hit:
  "paired (trace (state_of (master_run_hit r fuel))) (reqs (state_of (master_run_hit r fuel)))"
proof -
  let ?st0 = "init_master (comm_size r) :: hit_master"
  let ?sat = "saturate_hit r [1..<comm_size r] ?st0"
  have 0: "paired (trace ?st0) (reqs ?st0)"
    by (simp add: init_master_def paired_Nil)
  have 1: "paired (trace (state_of ?sat)) (reqs (state_of ?sat))"
    by (rule paired_saturate_hit [OF 0]) (simp_all add: init_master_def)
  show ?thesis
  proof (cases ?sat)
    case sat: (Returned st1)
    with 1 have p1: "paired (trace st1) (reqs st1)" by simp
    note 2 = paired_steady_loop_hit [OF p1, of r fuel]
    show ?thesis
    proof (cases "steady_loop_hit r fuel st1")
      case steady: (Returned st2)
      with 2 have "paired (trace (st2\<lparr>all_done := False\<rparr>)) (reqs (st2\<lparr>all_done := False\<rparr>))"
        by simp
      note 3 = paired_drain_loop_hit [OF this, of r fuel]
      show ?thesis
      proof (cases "drain_loop_hit r fuel (st2\<lparr>all_done := False\<rparr>)")
        case (Returned st3)
        with 3 have "paired (trace st3) (reqs st3)" by simp
        from paired_finalize_hit [OF this, of r] show ?thesis
          using sat steady Returned by (simp add: master_run_hit_def)
      next
        case (Raised e st3)
        with 3 show ?thesis using sat steady by (simp add: master_run_hit_def)
      next
        case (Waiting st3)
        with 3 show ?thesis using sat steady by (simp add: master_run_hit_def)
      qed
    next
      case (Raised e st2)
      with 2 show ?thesis using sat by (simp add: master_run_hit_def)
    next
      case (Waiting st2)
      with 2 show ?thesis using sat by (simp add: master_run_hit_def)
    qed
  next
    case (Raised e st1)
    with 1 show ?thesis by (simp add: master_run_hit_def)
  next
    case (Waiting st1)
    with 1 show ?thesis by (simp add: master_run_hit_def)
  qed
qed

text \<open>
  C5. In every run of the hit-finder master, whether it returns, raises or is still
  polling after any number of passes, and at every instant of it (every prefix of its
  trace), each slave has at most one dispatched job whose result has not been taken and
  at most one armed receive: a receive is armed again only after the previous one has
  completed, and a job is sent only after the result of the previous one was received.
\<close>

theorem one_outstanding_job:
  assumes "prefix p (trace (state_of (master_run_hit r fuel)))"
  shows "received s p \<le> armed s p \<and> armed s p \<le> sent_jobs s p \<and> sent_jobs s p \<le> received s p + 1"
  using assms paired_master_run_hit [of r fuel]
  unfolding paired_def one_outstanding_def by blast

subsection \<open>Runs of the hit finder\<close>

lemma steady_loop_hit_done:
  "\<not> job_id st < length (jobs r) \<Longrightarrow> steady_loop_hit r fuel st = Returned st"
  by (cases fuel) simp_all

lemma drain_loop_hit_done:
  "all_done st \<Longrightarrow> drain_loop_hit r fuel st = Returned st"
  by (cases fuel) simp_all

lemmas example_simps = example_run_def example_job_def example_peaks_def
  two_slaves_two_jobs_def two_slaves_five_jobs_def three_slaves_four_jobs_def

lemmas run_hit_simps = master_run_hit_def init_master_def test_def
  slave_job_hit_def annotate_def finalize_hit_def steady_iteration_hit_def
  update_stat_hit_def count_hits_def Let_def upt_rec steady_loop_hit_done drain_loop_hit_done

text \<open>
  C1, on the hit finder. Two slaves, two jobs of one frame each, both slaves answering
  at once: the second loop removes slave 1 from the list it is walking, so slave 2 is
  never tested, and the master returns with one unit in its results where the jobs hold
  two.
\<close>

theorem drain_leaves_a_slave_out:
  "returned (master_run_hit two_slaves_two_jobs (Suc n))
   \<and> results (state_of (master_run_hit two_slaves_two_jobs (Suc n))) =
       [\<lparr>filepath = ''a.cxi'', frame = 0, nb_peak = 0\<rparr>]
   \<and> length (results (state_of (master_run_hit two_slaves_two_jobs (Suc n)))) = 1
   \<and> length (concat (jobs two_slaves_two_jobs)) = 2"
  by (simp add: example_simps run_hit_simps)

text \<open>
  C3, on the hit finder. In the same run the master writes the final snapshot, with
  progress "done" and a duration, while the request of slave 2 is still pending: its
  result was never received and it was never sent the stop flag.
\<close>

theorem done_written_with_a_slave_undrained:
  "stat_file (state_of (master_run_hit two_slaves_two_jobs (Suc n))) =
     Some \<lparr>stat_progress = Done, stat_processed_hits = 0, stat_hit_rate = 0,
           stat_duration = Seconds 60, stat_processed_frames = 1, stat_total_jobs = 2,
           stat_time_start = 100\<rparr>
   \<and> returned (master_run_hit two_slaves_two_jobs (Suc n))
   \<and> reqs (state_of (master_run_hit two_slaves_two_jobs (Suc n))) 2 = Some (Pending (example_job 1))
   \<and> received 2 (trace (state_of (master_run_hit two_slaves_two_jobs (Suc n)))) = 0
   \<and> Isend_flag 2 True \<notin> set (trace (state_of (master_run_hit two_slaves_two_jobs (Suc n))))"
  by (simp add: example_simps run_hit_simps)






theorem one_outstanding_job_witness:
  "prefix [Isend_job 1 (example_job 0), Irecv 1, Isend_job 2 (example_job 1), Irecv 2,
           Recv 1 [\<lparr>filepath = ''a.cxi'', frame = 0, nb_peak = 0\<rparr>]]
     (trace (state_of (master_run_hit two_slaves_two_jobs 1)))
   \<and> received 1 [Isend_job 1 (example_job 0), Irecv 1, Isend_job 2 (example_job 1), Irecv 2,
           Recv 1 [\<lparr>filepath = ''a.cxi'', frame = 0, nb_peak = 0\<rparr>]] = 1
   \<and> sent_jobs 1 [Isend_job 1 (example_job 0), Irecv 1, Isend_job 2 (example_job 1), Irecv 2,
           Recv 1 [\<lparr>filepath = ''a.cxi'', frame = 0, nb_peak = 0\<rparr>]] = 1"
  using one_outstanding_job [of "[Isend_job 1 (example_job 0), Irecv 1, Isend_job 2 (example_job 1), Irecv 2,
           Recv 1 [\<lparr>filepath = ''a.cxi'', frame = 0, nb_peak = 0\<rparr>]]" two_slaves_two_jobs 1 1]
  by (simp add: example_simps run_hit_simps)

subsection \<open>Saturation\<close>

lemma saturate_powder_sends:
  "saturate_powder r ss st = Returned (state_of (saturate_powder r ss st))
   \<and> trace (state_of (saturate_powder r ss st)) =
       trace st @ concat (map (\<lambda>k. [Isend_job (ss ! k) (job_or_placeholder (jobs r) (job_id st + k)),
                                     Irecv (ss ! k)]) [0..<length ss])
   \<and> job_id (state_of (saturate_powder r ss st)) = job_id st + length ss"
proof (induction ss arbitrary: st)
  case Nil
  then show ?case by simp
next
  case (Cons slave rest)
  let ?job = "job_or_placeholder (jobs r) (job_id st)"
  let ?st = "st\<lparr>trace := trace st @ [Isend_job slave ?job, Irecv slave],
            reqs := (reqs st)(slave \<mapsto> Pending ?job),
            job_id := job_id st + 1\<rparr>"
  have eq: "saturate_powder r (slave # rest) st = saturate_powder r rest ?st"
    by (simp add: job_or_placeholder_def Let_def)
  have l: "[0..<length (slave # rest)] = 0 # map Suc [0..<length rest]"
    by (simp add: upt_conv_Cons map_Suc_upt del: upt_Suc)
  show ?case
    unfolding eq l using Cons.IH [of ?st]
    by (simp add: comp_def)
qed

lemma saturate_hit_sends:
  "job_id st + length ss \<le> length (jobs r) \<Longrightarrow>
   saturate_hit r ss st = Returned (state_of (saturate_hit r ss st))
   \<and> trace (state_of (saturate_hit r ss st)) =
       trace st @ concat (map (\<lambda>k. [Isend_job (ss ! k) (jobs r ! (job_id st + k)),
                                     Irecv (ss ! k)]) [0..<length ss])
   \<and> job_id (state_of (saturate_hit r ss st)) = job_id st + length ss"
proof (induction ss arbitrary: st)
  case Nil
  then show ?case by simp
next
  case (Cons slave rest)
  let ?st = "st\<lparr>trace := trace st @ [Isend_job slave (jobs r ! job_id st), Irecv slave],
            reqs := (reqs st)(slave \<mapsto> Pending (jobs r ! job_id st)),
            job_id := job_id st + 1\<rparr>"
  have eq: "saturate_hit r (slave # rest) st = saturate_hit r rest ?st"
    using Cons.prems by simp
  have l: "[0..<length (slave # rest)] = 0 # map Suc [0..<length rest]"
    by (simp add: upt_conv_Cons map_Suc_upt del: upt_Suc)
  have "job_id ?st + length rest \<le> length (jobs r)" using Cons.prems by simp
  from Cons.IH [OF this] show ?case
    unfolding eq l by (simp add: comp_def)
qed

lemma saturate_peak2cxi_sends:
  "job_id st + length ss \<le> length (jobs r) \<Longrightarrow>
   saturate_peak2cxi r ss st = Returned (state_of (saturate_peak2cxi r ss st))
   \<and> trace (state_of (saturate_peak2cxi r ss st)) =
       trace st @ concat (map (\<lambda>k. [Isend_job (ss ! k) (jobs r ! (job_id st + k)),
                                     Irecv (ss ! k)]) [0..<length ss])
   \<and> job_id (state_of (saturate_peak2cxi r ss st)) = job_id st + length ss"
proof (induction ss arbitrary: st)
  case Nil
  then show ?case by simp
next
  case (Cons slave rest)
  let ?st = "st\<lparr>trace := trace st @ [Isend_job slave (jobs r ! job_id st), Irecv slave],
            reqs := (reqs st)(slave \<mapsto> Pending (jobs r ! job_id st)),
            job_id := job_id st + 1\<rparr>"
  have eq: "saturate_peak2cxi r (slave # rest) st = saturate_peak2cxi r rest ?st"
    using Cons.prems by (simp add: Let_def)
  have l: "[0..<length (slave # rest)] = 0 # map Suc [0..<length rest]"
    by (simp add: upt_conv_Cons map_Suc_upt del: upt_Suc)
  have "job_id ?st + length rest \<le> length (jobs r)" using Cons.prems by simp
  from Cons.IH [OF this] show ?case
    unfolding eq l by (simp add: comp_def)
qed

text \<open>
  C4. Two slaves and one job. The peak2cxi master assigns the placeholder to
  \<open>job\<close> but sends \<open>jobs[job_id]\<close>, and the hit-finder master has no test at
  all: both raise IndexError at the second slave. The powder master sends the
  placeholder and arms the receive.
\<close>

theorem saturation_reads_past_the_jobs:
  "saturate_peak2cxi more_slaves_than_jobs [1..<comm_size more_slaves_than_jobs]
      (init_master (comm_size more_slaves_than_jobs) :: (hit list, hit, stat) master) =
     Raised IndexError
       ((init_master 3)\<lparr>job_id := 1,
          reqs := [1 \<mapsto> Pending [\<lparr>filepath = ''a.cxi'', frame = 0, nb_peak = 25\<rparr>]],
          trace := [Isend_job 1 [\<lparr>filepath = ''a.cxi'', frame = 0, nb_peak = 25\<rparr>], Irecv 1]\<rparr>)
   \<and> saturate_hit (two_slaves_two_jobs\<lparr>jobs := [example_job 0]\<rparr>) [1..<3] (init_master 3) =
     Raised IndexError
       ((init_master 3)\<lparr>job_id := 1, reqs := [1 \<mapsto> Pending (example_job 0)],
          trace := [Isend_job 1 (example_job 0), Irecv 1]\<rparr>)
   \<and> trace (state_of (saturate_powder more_slaves_than_jobs [1..<comm_size more_slaves_than_jobs]
      (init_master (comm_size more_slaves_than_jobs) :: (hit list, hit, stat) master))) =
     [Isend_job 1 [\<lparr>filepath = ''a.cxi'', frame = 0, nb_peak = 25\<rparr>], Irecv 1,
      Isend_job 2 [], Irecv 2]"
  by (simp add: more_slaves_than_jobs_def init_master_def upt_rec Let_def
      two_slaves_two_jobs_def example_run_def example_job_def)

subsection \<open>The job partition\<close>

lemma split_sections_concat:
  "sum_list ns = length ary \<Longrightarrow> concat (split_sections ns ary) = ary"
  by (induction ns arbitrary: ary) auto

lemma split_sections_lengths:
  "sum_list ns = length ary \<Longrightarrow> map length (split_sections ns ary) = ns"
  by (induction ns arbitrary: ary) auto

lemma split_sections_map:
  "map (map f) (split_sections ns ary) = split_sections ns (map f ary)"
  by (induction ns arbitrary: ary) (auto simp: take_map drop_map)

lemma sum_list_section_sizes:
  "0 < k \<Longrightarrow> sum_list (section_sizes n k) = n"
proof -
  assume k: "0 < k"
  have "n mod k \<le> k" using k by (simp add: less_imp_le)
  then have "(n mod k) * (n div k + 1) + (k - n mod k) * (n div k) = k * (n div k) + n mod k"
    by (simp add: algebra_simps diff_mult_distrib)
  then show ?thesis
    by (simp add: section_sizes_def sum_list_replicate)
qed

lemma ceil_div_nat:
  assumes "0 < b"
  shows "- ((- int n) div int b) = int (if n mod b = 0 then n div b else n div b + 1)"
proof -
  have m: "int n mod int b = int (n mod b)" by (simp add: zmod_int)
  have d: "int n div int b = int (n div b)" by (simp add: zdiv_int)
  have "int b \<noteq> 0" using assms by simp
  from zdiv_zminus1_eq_if [OF this, of "int n"] show ?thesis
    unfolding m d by simp
qed


lemma ceil_quot_bounds:
  assumes "0 < n" "0 < b"
  shows "0 < ceil_quot n b" "ceil_quot n b \<le> n" "n \<le> ceil_quot n b * b"
proof -
  show "0 < ceil_quot n b"
    using assms by (auto simp: ceil_quot_def Euclidean_Rings.div_eq_0_iff mod_less)
  show "ceil_quot n b \<le> n"
  proof (cases "n mod b = 0")
    case True
    then show ?thesis by (simp add: ceil_quot_def)
  next
    case False
    then have "b \<noteq> 1" by auto
    with assms have "2 \<le> b" by simp
    then have "n div b < n" using assms by simp
    then show ?thesis using False by (simp add: ceil_quot_def)
  qed
  show "n \<le> ceil_quot n b * b"
  proof (cases "n mod b = 0")
    case True
    then show ?thesis using div_mult_mod_eq [of n b] by (simp add: ceil_quot_def)
  next
    case False
    have "n = n div b * b + n mod b" by simp
    moreover have "n mod b < b" using assms by simp
    ultimately have "n < n div b * b + b" by linarith
    then show ?thesis using False by (simp add: ceil_quot_def)
  qed
qed

lemma section_sizes_bounds:
  assumes "0 < n" "0 < b" "m \<in> set (section_sizes n (ceil_quot n b))"
  shows "1 \<le> m \<and> m \<le> b"
proof -
  let ?k = "ceil_quot n b"
  note k = ceil_quot_bounds [OF assms(1,2)]
  have q1: "1 \<le> n div ?k"
    using k(1,2) by (simp add: Suc_le_eq div_greater_zero_iff)
  have q2: "n div ?k \<le> b"
  proof -
    have "n div ?k \<le> (?k * b) div ?k" using k(3) by (rule div_le_mono)
    then show ?thesis using k(1) by simp
  qed
  have q3: "n div ?k + 1 \<le> b" if r: "0 < n mod ?k"
  proof (rule ccontr)
    assume "\<not> n div ?k + 1 \<le> b"
    with q2 have "n div ?k = b" by simp
    then have "n = b * ?k + n mod ?k"
      by (metis div_mult_mod_eq)
    with r k(3) show False by (simp add: mult.commute)
  qed
  from assms(3) have "m = n div ?k \<or> (m = n div ?k + 1 \<and> 0 < n mod ?k)"
    by (auto simp: section_sizes_def)
  then show ?thesis using q1 q2 q3 by auto
qed

lemma section_sizes_exact:
  assumes "0 < n" "0 < b" "b dvd n" "m \<in> set (section_sizes n (ceil_quot n b))"
  shows "m = b"
proof -
  from assms(3) have k: "ceil_quot n b = n div b" "n = (n div b) * b"
    by (auto simp: ceil_quot_def)
  have "0 < n div b" using assms k(2) by (metis gr0I mult_is_0)
  then have "n div (n div b) = b" "n mod (n div b) = 0"
    using k(2) by (metis nonzero_mult_div_cancel_left less_numeral_extra(3), metis mod_mult_self1_is_0)
  then show ?thesis using assms(4) k(1) by (auto simp: section_sizes_def)
qed

text \<open>
  C2, as the code has it. For a non-empty list of records and a batch size of at least 1,
  the jobs are \<open>ceil(n / batch_size)\<close> contiguous sections in the original order
  whose concatenation is the list; the first \<open>n mod k\<close> of the \<open>k\<close> jobs hold
  \<open>n div k + 1\<close> records and the others \<open>n div k\<close>, every job holds at least one
  record and at most \<open>batch_size\<close>, and when \<open>batch_size\<close> divides \<open>n\<close> every
  job holds exactly \<open>batch_size\<close>. Ten records with batch size 5 give two jobs of 5.
\<close>

theorem jobs_peak2cxi_partition:
  assumes "peak_info \<noteq> []" and "1 \<le> batch_size"
  shows "\<exists>js. jobs_peak2cxi peak_info batch_size = Inr js
    \<and> concat js = peak_info
    \<and> int (length js) = \<lceil>real (length peak_info) / real_of_int batch_size\<rceil>
    \<and> map length js =
         replicate (length peak_info mod length js) (length peak_info div length js + 1)
           @ replicate (length js - length peak_info mod length js)
               (length peak_info div length js)
    \<and> (\<forall>j \<in> set js. 1 \<le> length j \<and> int (length j) \<le> batch_size)
    \<and> (batch_size dvd int (length peak_info) \<longrightarrow> (\<forall>j \<in> set js. int (length j) = batch_size))"
proof -
  let ?n = "length peak_info"
  obtain b where b: "batch_size = int b" "0 < b"
    using assms(2) by (metis nat_0_le zero_less_nat_eq zero_less_one less_le_trans order.strict_trans1 zero_le_one order_trans)
  have n: "0 < ?n" using assms(1) by simp
  let ?k = "ceil_quot ?n b"
  note k = ceil_quot_bounds [OF n b(2)]
  let ?ns = "section_sizes ?n ?k"
  let ?js = "split_sections ?ns peak_info"
  have nb: "nb_jobs_peak2cxi ?n batch_size = Inr (int ?k)"
    using b ceil_div_nat [OF b(2), of ?n] by (simp add: nb_jobs_peak2cxi_def ceil_quot_def)
  have sum: "sum_list ?ns = ?n" using k(1) by (rule sum_list_section_sizes)
  have "map (\<lambda>idx. map (\<lambda>i. peak_info ! i) idx) (split_sections ?ns [0..<?n]) = ?js"
    by (simp add: split_sections_map map_nth)
  then have js: "jobs_peak2cxi peak_info batch_size = Inr ?js"
    using nb k(1) by (simp add: jobs_peak2cxi_def array_split_def)
  have c: "concat ?js = peak_info" using sum by (rule split_sections_concat)
  have l: "map length ?js = ?ns" using sum by (rule split_sections_lengths)
  have "?n mod ?k \<le> ?k" using k(1) by (simp add: less_imp_le)
  then have len: "length ?js = ?k"
    using arg_cong [OF l, of length] by (simp add: section_sizes_def)
  have ceil: "int (length ?js) = \<lceil>real ?n / real_of_int batch_size\<rceil>"
  proof -
    have "\<lceil>real_of_int (int ?n) / real_of_int batch_size\<rceil> = - (- int ?n div batch_size)"
      by (rule ceiling_divide_eq_div)
    then show ?thesis
      using nb b len by (simp add: nb_jobs_peak2cxi_def)
  qed
  have bounds: "\<forall>j \<in> set ?js. 1 \<le> length j \<and> int (length j) \<le> batch_size"
  proof
    fix j assume "j \<in> set ?js"
    then have "length j \<in> set (map length ?js)" by simp
    then have "length j \<in> set ?ns" unfolding l .
    from section_sizes_bounds [OF n b(2) this] show "1 \<le> length j \<and> int (length j) \<le> batch_size"
      using b by simp
  qed
  have exact: "batch_size dvd int ?n \<longrightarrow> (\<forall>j \<in> set ?js. int (length j) = batch_size)"
  proof (intro impI ballI)
    fix j assume d: "batch_size dvd int ?n" and "j \<in> set ?js"
    then have "length j \<in> set (map length ?js)" by simp
    then have m: "length j \<in> set ?ns" unfolding l .
    from d b have "b dvd ?n" by simp
    from section_sizes_exact [OF n b(2) this m] show "int (length j) = batch_size"
      using b by simp
  qed
  have shape: "map length ?js =
         replicate (?n mod length ?js) (?n div length ?js + 1)
           @ replicate (length ?js - ?n mod length ?js) (?n div length ?js)"
    unfolding len l by (simp add: section_sizes_def)
  show ?thesis
    using js c ceil shape bounds exact by blast
qed

theorem jobs_peak2cxi_partition_witness:
  "[0, 1, 2, 3, 4, 5, 6, 7, 8, 9 :: nat] \<noteq> [] \<and> (1::int) \<le> 5
   \<and> jobs_peak2cxi [0, 1, 2, 3, 4, 5, 6, 7, 8, 9 :: nat] 5 = Inr [[0, 1, 2, 3, 4], [5, 6, 7, 8, 9]]
   \<and> map length [[0, 1, 2, 3, 4], [5, 6, 7, 8, 9 :: nat]] = [5, 5]"
proof -
  have a: "[0, 1, 2, 3, 4, 5, 6, 7, 8, 9 :: nat] \<noteq> []" by simp
  have b: "(1::int) \<le> 5" by simp
  from jobs_peak2cxi_partition [OF a b]
  obtain js where "jobs_peak2cxi [0, 1, 2, 3, 4, 5, 6, 7, 8, 9 :: nat] 5 = Inr js"
    and "concat js = [0, 1, 2, 3, 4, 5, 6, 7, 8, 9]" by blast
  moreover have "jobs_peak2cxi [0, 1, 2, 3, 4, 5, 6, 7, 8, 9 :: nat] 5
      = Inr [[0, 1, 2, 3, 4], [5, 6, 7, 8, 9]]"
    by code_simp
  ultimately show ?thesis by simp
qed

text \<open>
  C2, as the claim states it, fails: eleven records with batch size 5 are split into
  jobs of 4, 4 and 3 records, so the first job does not hold exactly 5.
\<close>

theorem jobs_not_of_batch_size_counterexample:
  "jobs_peak2cxi [0, 1, 2, 3, 4, 5, 6, 7, 8, 9, 10 :: nat] 5
     = Inr [[0, 1, 2, 3], [4, 5, 6, 7], [8, 9, 10]]
   \<and> length [0, 1, 2, 3 :: nat] \<noteq> 5"
  by code_simp

subsection \<open>The compaction slave\<close>

lemma saved_append [simp]: "saved (xs @ ys) = saved xs @ saved ys"
  by (induction xs rule: saved.induct) auto

lemma flushed_unit:
  assumes "flushed a acc w"
  shows "flushed a (acc @ accepted a [u]) (compress_job a [u] w)"
proof (cases "cxi_min_peak a \<le> nb_peak u")
  case False
  then show ?thesis using assms by (auto simp: flushed_def accepted_def Let_def)
next
  case True
  show ?thesis
  proof (cases "int (length (batch w @ [u])) = cxi_size a")
    case full: True
    then show ?thesis
      using assms True by (auto simp: flushed_def accepted_def Let_def)
  next
    case False
    then show ?thesis
      using assms True by (auto simp: flushed_def accepted_def Let_def)
  qed
qed

lemma compress_job_Cons:
  "compress_job a (u # us) w = compress_job a us (compress_job a [u] w)"
  by (simp add: Let_def)

lemma flushed_job:
  "flushed a acc w \<Longrightarrow> flushed a (acc @ accepted a us) (compress_job a us w)"
proof (induction us arbitrary: acc w)
  case Nil
  then show ?case by (simp add: accepted_def)
next
  case (Cons u us)
  have 1: "compress_job a (u # us) w = compress_job a us (compress_job a [u] w)"
    by (rule compress_job_Cons)
  have 2: "acc @ accepted a (u # us) = (acc @ accepted a [u]) @ accepted a us"
    by (simp add: accepted_def)
  show ?case
    unfolding 1 2 by (rule Cons.IH) (rule flushed_unit [OF Cons.prems])
qed

lemma flushed_loop:
  "flushed a acc w \<Longrightarrow>
   \<exists>w'. slave_loop_peak2cxi a (map (\<lambda>j. (j, False)) js @ [(jl, True)]) w = Some w'
     \<and> flushed a (acc @ accepted a (concat (js @ [jl]))) w'
     \<and> last (sent w') = Send_job jl"
proof (induction js arbitrary: acc w)
  case Nil
  let ?w = "(compress_job a jl w)\<lparr>sent := sent (compress_job a jl w) @ [Send_job jl]\<rparr>"
  have "flushed a (acc @ accepted a jl) ?w"
    using flushed_job [OF Nil, of jl] by (simp add: flushed_def)
  moreover have "slave_loop_peak2cxi a (map (\<lambda>j. (j, False)) [] @ [(jl, True)]) w = Some ?w"
    by (simp add: Let_def)
  ultimately show ?case by simp
next
  case (Cons j js)
  let ?w = "(compress_job a j w)\<lparr>sent := sent (compress_job a j w) @ [Send_job j]\<rparr>"
  have "flushed a (acc @ accepted a j) ?w"
    using flushed_job [OF Cons.prems, of j] by (simp add: flushed_def)
  from Cons.IH [OF this] obtain w' where
    w': "slave_loop_peak2cxi a (map (\<lambda>j. (j, False)) js @ [(jl, True)]) ?w = Some w'"
      "flushed a ((acc @ accepted a j) @ accepted a (concat (js @ [jl]))) w'"
      "last (sent w') = Send_job jl"
    by blast
  have 1: "slave_loop_peak2cxi a (map (\<lambda>j. (j, False)) (j # js) @ [(jl, True)]) w = Some w'"
    using w'(1) by (simp add: Let_def)
  have 2: "acc @ accepted a (concat ((j # js) @ [jl])) =
      (acc @ accepted a j) @ accepted a (concat (js @ [jl]))"
    by (simp add: accepted_def)
  show ?case
    unfolding 1 2 using w'(2,3) by blast
qed

lemma flushed_init: "0 < cxi_size a \<Longrightarrow> flushed a [] \<lparr>batch = [], count = 0, sent = []\<rparr>"
  by (simp add: flushed_def)

lemma digit_char_inj:
  "m < 10 \<Longrightarrow> n < 10 \<Longrightarrow> digit_char m = digit_char n \<Longrightarrow> m = n"
proof -
  assume "m < 10" "n < 10" "digit_char m = digit_char n"
  moreover have "distinct ''0123456789''" by simp
  ultimately show ?thesis
    by (simp add: digit_char_def nth_eq_iff_index_eq)
qed

lemma digit_char_digit: "n < 10 \<Longrightarrow> digit_char n \<in> set ''0123456789''"
  unfolding digit_char_def by (rule nth_mem) simp

lemma str_nat_small: "n < 10 \<Longrightarrow> str_nat n = [digit_char n]"
  by (subst str_nat.simps) simp

lemma str_nat_large:
  "\<not> n < 10 \<Longrightarrow> str_nat n = str_nat (n div 10) @ [digit_char (n mod 10)]"
  by (subst str_nat.simps) simp

lemma str_nat_digits: "set (str_nat n) \<subseteq> set ''0123456789''"
proof (induction n rule: str_nat.induct)
  case (1 n)
  show ?case
  proof (cases "n < 10")
    case True
    then show ?thesis
      using digit_char_digit [of n] unfolding str_nat_small [OF True] by simp
  next
    case False
    have "n mod 10 < 10" by simp
    from digit_char_digit [OF this] "1.IH" [OF False]
    show ?thesis unfolding str_nat_large [OF False] by simp
  qed
qed

lemma str_nat_not_Nil: "str_nat n \<noteq> []"
  by (cases "n < 10") (simp_all add: str_nat_small str_nat_large)

lemma str_nat_length: "length (str_nat n) = 1 \<longleftrightarrow> n < 10"
  using str_nat_not_Nil [of "n div 10"]
  by (cases "n < 10") (simp_all add: str_nat_small str_nat_large)

lemma str_nat_inj: "str_nat m = str_nat n \<Longrightarrow> m = n"
proof (induction m arbitrary: n rule: str_nat.induct)
  case (1 m)
  show ?case
  proof (cases "m < 10")
    case True
    then have n: "n < 10"
      using "1.prems" str_nat_length [of m] str_nat_length [of n] by simp
    from "1.prems" have "digit_char m = digit_char n"
      unfolding str_nat_small [OF True] str_nat_small [OF n] by simp
    then show ?thesis using True n by (rule digit_char_inj [rotated 2])
  next
    case False
    then have n: "\<not> n < 10"
      using "1.prems" str_nat_length [of m] str_nat_length [of n] by simp
    from "1.prems"
    have eq: "str_nat (m div 10) = str_nat (n div 10)"
      "digit_char (m mod 10) = digit_char (n mod 10)"
      unfolding str_nat_large [OF False] str_nat_large [OF n] by simp_all
    from "1.IH" [OF False eq(1)] have "m div 10 = n div 10" .
    moreover have "m mod 10 = n mod 10"
      using eq(2) by (intro digit_char_inj) simp_all
    ultimately show ?thesis by (metis div_mult_mod_eq)
  qed
qed



lemma path_join_inj:
  assumes "path_join d x = path_join d y" "x \<noteq> []" "y \<noteq> []" "hd x = hd y"
  shows "x = y"
proof (cases "hd x = CHR ''/''")
  case True
  then have "hd y = CHR ''/''" using assms(4) by simp
  then have "path_join d y = y" using assms(3) by (simp add: path_join_def)
  moreover have "path_join d x = x" using True assms(2) by (simp add: path_join_def)
  ultimately show ?thesis using assms(1) by simp
next
  case False
  then have ny: "hd y \<noteq> CHR ''/''" using assms(4) by simp
  have px: "path_join d x = (if d = [] \<or> last d = CHR ''/'' then d @ x else d @ ''/'' @ x)"
    using False by (simp add: path_join_def)
  have py: "path_join d y = (if d = [] \<or> last d = CHR ''/'' then d @ y else d @ ''/'' @ y)"
    using ny by (simp add: path_join_def)
  from assms(1) show ?thesis unfolding px py by (simp split: if_splits)
qed

lemma cxi_file_inj:
  assumes "cxi_file a m = cxi_file a' n" "cxi_hit_dir a = cxi_hit_dir a'" "cxi_prefix a = cxi_prefix a'"
  shows "cxi_rank a = cxi_rank a' \<and> m = n"
proof -
  let ?r = "str_nat (cxi_rank a)" and ?r' = "str_nat (cxi_rank a')"
  let ?x = "cxi_prefix a @ ''-rank'' @ ?r @ ''-job'' @ str_nat m @ ''.cxi''"
  let ?y = "cxi_prefix a @ ''-rank'' @ ?r' @ ''-job'' @ str_nat n @ ''.cxi''"
  have hd: "hd ?x = hd ?y" by (cases "cxi_prefix a") simp_all
  have j: "path_join (cxi_hit_dir a) ?x = path_join (cxi_hit_dir a) ?y"
    using assms unfolding cxi_file_def by simp
  have "?x \<noteq> []" "?y \<noteq> []" by simp_all
  with j have "?x = ?y" using hd by (rule path_join_inj)
  then have e: "?r @ CHR ''-'' # (''job'' @ str_nat m @ ''.cxi'')
           = ?r' @ CHR ''-'' # (''job'' @ str_nat n @ ''.cxi'')"
    by simp
  have nd: "CHR ''-'' \<notin> set ''0123456789''" by simp
  have n1: "CHR ''-'' \<notin> set ?r" using str_nat_digits [of "cxi_rank a"] nd by blast
  have "CHR ''-'' \<notin> set (str_nat m)" using str_nat_digits [of m] nd by blast
  then have n2: "CHR ''-'' \<notin> set (''job'' @ str_nat m @ ''.cxi'')" by simp
  note c = iffD1 [OF append_Cons_eq_iff [OF n1 n2] e]
  from c have "?r = ?r'" by (rule conjunct1)
  moreover from c have "''job'' @ str_nat m @ ''.cxi'' = ''job'' @ str_nat n @ ''.cxi''"
    by (rule conjunct2)
  then have "str_nat m = str_nat n" by simp
  ultimately show ?thesis by (blast dest: str_nat_inj)
qed


lemma length_concat_same:
  "\<forall>b \<in> set bs. length b = c \<Longrightarrow> length (concat bs) = length bs * c"
  by (induction bs) auto

text \<open>
  C7. With a positive capacity, a slave that is sent the jobs \<open>js\<close> and \<open>jl\<close> and
  then the stop flag writes, inside its loop, one artifact for each time its buffer
  reaches the capacity (each of exactly that size), and after the last job has been
  sent back it writes the non-empty remainder once more. The names are those of the
  counter values 0, 1, 2, ... and are pairwise different, and the artifacts together
  hold the accepted records in order. Five accepted records with capacity 2 give three
  artifacts of sizes 2, 2 and 1, the last one written at shutdown.
\<close>

theorem compaction_flushes:
  assumes "0 < cxi_size a"
  shows "\<exists>wl w.
      slave_loop_peak2cxi a (map (\<lambda>j. (j, False)) js @ [(jl, True)])
        \<lparr>batch = [], count = 0, sent = []\<rparr> = Some wl
    \<and> slave_run_peak2cxi a (map (\<lambda>j. (j, False)) js @ [(jl, True)]) = Some w
    \<and> last (sent wl) = Send_job jl
    \<and> map (length \<circ> snd) (saved (sent wl)) =
        replicate (length (accepted a (concat (js @ [jl]))) div nat (cxi_size a)) (nat (cxi_size a))
    \<and> sent w = sent wl
        @ (if length (accepted a (concat (js @ [jl]))) mod nat (cxi_size a) = 0 then []
           else [Save_full_cxi
                   (cxi_file a (length (accepted a (concat (js @ [jl]))) div nat (cxi_size a)))
                   (drop (length (accepted a (concat (js @ [jl]))) div nat (cxi_size a)
                            * nat (cxi_size a))
                      (accepted a (concat (js @ [jl]))))])
        @ [Send_done]
    \<and> concat (map snd (saved (sent w))) = accepted a (concat (js @ [jl]))
    \<and> map fst (saved (sent w)) = map (cxi_file a) [0..<length (saved (sent w))]
    \<and> distinct (map fst (saved (sent w)))"
proof -
  let ?q = "accepted a (concat (js @ [jl]))"
  let ?c = "nat (cxi_size a)"
  let ?msgs = "map (\<lambda>j. (j, False)) js @ [(jl, True)]"
  from flushed_loop [OF flushed_init [OF assms], of js jl]
  obtain wl where wl: "slave_loop_peak2cxi a ?msgs \<lparr>batch = [], count = 0, sent = []\<rparr> = Some wl"
    "flushed a ?q wl" "last (sent wl) = Send_job jl"
    by auto
  let ?S = "saved (sent wl)"
  from wl(2) have f: "length (batch wl) < ?c" "?q = concat (map snd ?S) @ batch wl"
    "\<forall>b \<in> set (map snd ?S). length b = ?c" "map fst ?S = map (cxi_file a) [0..<count wl]"
    using assms by (auto simp: flushed_def)
  have n: "length ?S = count wl"
    using arg_cong [OF f(4), of length] by simp
  have lc: "length (concat (map snd ?S)) = count wl * ?c"
    using length_concat_same [OF f(3)] n by simp
  then have lq: "length ?q = count wl * ?c + length (batch wl)"
    using arg_cong [OF f(2), of length] by simp
  have d: "length ?q div ?c = count wl" using lq f(1) by simp
  have m: "length ?q mod ?c = length (batch wl)" using lq f(1) by simp
  have b: "batch wl = drop (count wl * ?c) ?q"
    using f(2) lc by (metis append_eq_conv_conj)
  have sizes: "map (length \<circ> snd) ?S = replicate (length ?q div ?c) ?c"
  proof -
    have "map (length \<circ> snd) ?S = map (\<lambda>x. ?c) ?S"
      using f(3) by (intro map_cong) auto
    then show ?thesis using n d by (simp add: map_replicate_const)
  qed
  let ?rest = "if length ?q mod ?c = 0 then []
     else [Save_full_cxi (cxi_file a (length ?q div ?c)) (drop (length ?q div ?c * ?c) ?q)]"
  let ?flush = "if length (batch wl) > 0
     then [Save_full_cxi (cxi_file a (count wl)) (batch wl)] else []"
  have rest: "?rest = ?flush"
    unfolding m d b [symmetric] by simp
  let ?w = "wl\<lparr>sent := sent wl @ ?rest @ [Send_done]\<rparr>"
  have "slave_run_peak2cxi a ?msgs = Some (wl\<lparr>sent := sent wl @ ?flush @ [Send_done]\<rparr>)"
    using wl(1) by (simp add: slave_run_peak2cxi_def Let_def)
  then have run: "slave_run_peak2cxi a ?msgs = Some ?w"
    unfolding rest .
  have sv: "saved (sent ?w) = ?S @ saved ?flush"
    unfolding rest by simp
  have c1: "concat (map snd (?S @ saved ?flush)) = concat (map snd ?S) @ batch wl"
    by simp
  have cat: "concat (map snd (saved (sent ?w))) = ?q"
    by (rule trans [OF arg_cong [OF sv, of "\<lambda>s. concat (map snd s)"] trans [OF c1 f(2) [symmetric]]])
  have n1: "map fst (?S @ saved ?flush) = map (cxi_file a) [0..<length (?S @ saved ?flush)]"
    using f(4) n by simp
  have names: "map fst (saved (sent ?w)) = map (cxi_file a) [0..<length (saved (sent ?w))]"
    unfolding sv by (rule n1)
  have "inj (cxi_file a)"
    using cxi_file_inj [of a _ a] by (intro injI) blast
  then have "distinct (map (cxi_file a) [0..<length (saved (sent ?w))])"
    by (simp add: distinct_map inj_on_def inj_def)
  then have dist: "distinct (map fst (saved (sent ?w)))"
    using names by simp
  have snt: "sent ?w = sent wl @ ?rest @ [Send_done]" by simp
  show ?thesis
    apply (rule exI [of _ wl])
    apply (rule exI [of _ ?w])
    apply (intro conjI)
    apply (rule wl(1))
    apply (rule run)
    apply (rule wl(3))
    apply (rule sizes)
    apply (rule snt)
    apply (rule cat)
    apply (rule names)
    apply (rule dist)
    done
qed



theorem compaction_flushes_witness:
  "0 < cxi_size example_args
   \<and> map (\<lambda>e. case e of Save_full_cxi name b \<Rightarrow> (name, map frame b) | _ \<Rightarrow> ([], []))
       (sent (the (slave_run_peak2cxi example_args
         [([example_hit 0 30, example_hit 1 30, example_hit 2 3], False),
          ([example_hit 3 30, example_hit 4 30, example_hit 5 30], True)]))) =
     [(''hits/peaks-rank12-job0.cxi'', [0, 1]), ([], []),
      (''hits/peaks-rank12-job1.cxi'', [3, 4]), ([], []),
      (''hits/peaks-rank12-job2.cxi'', [5]), ([], [])]"
proof -
  have h: "0 < cxi_size example_args" by (simp add: example_args_def)
  from compaction_flushes [OF h, of "[[example_hit 0 30, example_hit 1 30, example_hit 2 3]]"
      "[example_hit 3 30, example_hit 4 30, example_hit 5 30]"]
  obtain w where "slave_run_peak2cxi example_args
      (map (\<lambda>j. (j, False)) [[example_hit 0 30, example_hit 1 30, example_hit 2 3]]
        @ [([example_hit 3 30, example_hit 4 30, example_hit 5 30], True)]) = Some w"
    by blast
  moreover have "map (\<lambda>e. case e of Save_full_cxi name b \<Rightarrow> (name, map frame b) | _ \<Rightarrow> ([], []))
       (sent (the (slave_run_peak2cxi example_args
         [([example_hit 0 30, example_hit 1 30, example_hit 2 3], False),
          ([example_hit 3 30, example_hit 4 30, example_hit 5 30], True)]))) =
     [(''hits/peaks-rank12-job0.cxi'', [0, 1]), ([], []),
      (''hits/peaks-rank12-job1.cxi'', [3, 4]), ([], []),
      (''hits/peaks-rank12-job2.cxi'', [5]), ([], [])]"
    by code_simp
  ultimately show ?thesis using h by simp
qed

end
